theory Spec2Isabelle
  imports Main
begin

section \<open>Data model (src/App.tsx, lines 21-88)\<close>

text \<open>
  Identifiers are strings. The TypeScript interfaces become records; fields that several
  interfaces share (\<open>eventId\<close>, \<open>driverId\<close>, \<open>playerId\<close>, \<open>direction\<close>, \<open>notes\<close>)
  keep their names and are written with the record's name in front where needed. The
  fields \<open>id\<close> and \<open>notes\<close> are written \<open>id'\<close> and \<open>notes'\<close>.
\<close>

type_synonym ID = string

datatype Preference = Pref_none | Pref_prefer | Pref_always

datatype Direction = Dir_to | Dir_from | Dir_both

text \<open>
  A seat count is a JavaScript \<open>number\<close> read back from JSON. The driver form fills the
  counts with \<open>parseInt\<close>, so a count that is a number is an integer (possibly negative).
  \<open>None\<close> is a count that is not a number: \<open>undefined\<close> when the field is missing from
  the record, and \<open>NaN\<close> once such a value has been decremented. The engine uses two
  operations on counts: the test \<open>x <= 0\<close>, which is false for \<open>undefined\<close> and \<open>NaN\<close>,
  and \<open>x--\<close>, which turns both into \<open>NaN\<close>.
\<close>

type_synonym number = "int option"

definition le_zero :: "number \<Rightarrow> bool" where
  "le_zero x = (case x of None \<Rightarrow> False | Some n \<Rightarrow> n \<le> 0)"

definition decrement :: "number \<Rightarrow> number" where
  "decrement x = (case x of None \<Rightarrow> None | Some n \<Rightarrow> Some (n - 1))"

record Player =
  id' :: ID
  name :: string
  teamName :: string
  grade :: string
  needsChildSeat :: bool
  groupIds :: "ID list"

record Driver =
  id' :: ID
  name :: string
  hasLicense :: bool
  maxSeatsTotal :: int
  maxChildSeats :: int
  notes' :: string

record Eligibility =
  driverId :: ID
  playerId :: ID
  allowed :: bool
  preference :: Preference

record EventAttendance =
  eventId :: ID
  playerId :: ID
  isGoing :: bool
  needsRide :: bool

record EventDriver =
  eventId :: ID
  driverId :: ID
  isDriving :: bool
  direction :: Direction
  availableSeatsTotal :: number
  availableChildSeats :: number
  notes' :: string

record Assignment =
  id' :: ID
  eventId :: ID
  driverId :: ID
  playerId :: ID
  direction :: Direction

text \<open>
  A bucket is the availability record spread into a new object (\<open>...d\<close>) with three more
  fields (lines 683-688): a record extension.
\<close>

record Bucket = EventDriver +
  remainingSeats :: number
  remainingChildSeats :: number
  assignedPlayerIds :: "ID list"

section \<open>The surrounding application state\<close>

text \<open>
  What the two handlers read and write besides their arguments: the \<open>assignments\<close> table
  of the local-storage database, the \<open>assignments\<close> React state (the current event's rows,
  loaded by \<open>navigateToEvent\<close>), the selected tab, the alerts shown so far and the id of
  the player being dragged.
\<close>

datatype Tab = Tab_attendance | Tab_drivers | Tab_carpool

datatype Alert =
    Alert_no_drivers      \<comment> \<open>\<open>'No drivers marked for this event!'\<close>\<close>
  | Alert_generated nat   \<comment> \<open>\<open>`Carpool generated. ${n} players unassigned.`\<close>\<close>

record World =
  assignmentsDB :: "Assignment list"
  assignments :: "Assignment list"
  tab :: Tab
  alerts :: "Alert list"
  draggedPlayerId :: "ID option"

text \<open>
  \<open>refreshData\<close>, as \<open>EventDetail\<close> and \<open>CarpoolBoard\<close> receive it, is
  \<open>navigateToEvent(currentEventId)\<close> (lines 240-251): it reloads the event's rows from the
  database into the React state.
\<close>

definition refreshData :: "ID \<Rightarrow> World \<Rightarrow> World" where
  "refreshData ev w =
     w\<lparr>assignments := filter (\<lambda>a. Assignment.eventId a = ev) (assignmentsDB w)\<rparr>"

section \<open>Eligibility resolver (lines 672-680)\<close>

definition isAllowed :: "Eligibility list \<Rightarrow> ID \<Rightarrow> ID \<Rightarrow> bool" where
  "isAllowed allEligibility did pid =
     (case find (\<lambda>e. Eligibility.driverId e = did \<and> Eligibility.playerId e = pid) allEligibility of
        None \<Rightarrow> True
      | Some rule \<Rightarrow> allowed rule)"

definition getPreference :: "Eligibility list \<Rightarrow> ID \<Rightarrow> ID \<Rightarrow> Preference" where
  "getPreference allEligibility did pid =
     (case find (\<lambda>e. Eligibility.driverId e = did \<and> Eligibility.playerId e = pid) allEligibility of
        None \<Rightarrow> Pref_none
      | Some rule \<Rightarrow> preference rule)"

section \<open>Driver availability (lines 628-645)\<close>

datatype Error = TypeError

datatype ToggleField = Field_isDriving | Field_direction Direction

text \<open>
  \<open>toggleDriver\<close> builds the default record only when the event has no record for the
  driver yet (\<open>||\<close> evaluates its right operand only then); reading \<open>maxSeatsTotal\<close> of a
  driver that \<open>allDrivers.find\<close> did not find throws.
\<close>

definition toggleDriver ::
  "ID \<Rightarrow> Driver list \<Rightarrow> EventDriver list \<Rightarrow> ID \<Rightarrow> ToggleField \<Rightarrow> Error + EventDriver list" where
  "toggleDriver ev allDrivers localEventDrivers did field =
     (let existing =
        (case find (\<lambda>d. EventDriver.driverId d = did) localEventDrivers of
           Some e \<Rightarrow> Inr e
         | None \<Rightarrow>
            (case find (\<lambda>d. Driver.id' d = did) allDrivers of
               None \<Rightarrow> Inl TypeError
             | Some driverDef \<Rightarrow>
                 Inr \<lparr>EventDriver.eventId = ev, driverId = did, isDriving = False,
                      direction = Dir_both,
                      availableSeatsTotal = Some (maxSeatsTotal driverDef),
                      availableChildSeats = Some (maxChildSeats driverDef),
                      notes' = ''''\<rparr>))
      in case existing of
           Inl err \<Rightarrow> Inl err
         | Inr e \<Rightarrow>
            (let updated =
               (case field of
                  Field_isDriving \<Rightarrow> e\<lparr>isDriving := \<not> isDriving e\<rparr>
                | Field_direction v \<Rightarrow> e\<lparr>EventDriver.direction := v\<rparr>)
             in Inr (filter (\<lambda>d. EventDriver.driverId d \<noteq> did) localEventDrivers @ [updated])))"

section \<open>Assignment engine (lines 649-754)\<close>

definition goingPlayers :: "Player list \<Rightarrow> EventAttendance list \<Rightarrow> Player list" where
  "goingPlayers allPlayers localAttendance =
     filter (\<lambda>p. case find (\<lambda>a. EventAttendance.playerId a = Player.id' p) localAttendance of
                   None \<Rightarrow> False
                 | Some att \<Rightarrow> isGoing att \<and> needsRide att)
            allPlayers"

definition activeDrivers :: "EventDriver list \<Rightarrow> EventDriver list" where
  "activeDrivers localEventDrivers = filter isDriving localEventDrivers"

definition bucketOf :: "EventDriver \<Rightarrow> Bucket" where
  "bucketOf d =
     EventDriver.extend d
       (Bucket.fields (availableSeatsTotal d) (availableChildSeats d) [])"

definition bucketsOf :: "EventDriver list \<Rightarrow> Bucket list" where
  "bucketsOf active = map bucketOf active"

text \<open>
  The comparator of line 693, and \<open>Array.prototype.sort\<close>. ECMAScript requires the sort
  to be stable, and this comparator is a consistent ordering, so the result is the one
  of any stable sort by the comparator; the model inserts each element before the first
  element it does not come after.
\<close>

definition compareChildSeat :: "Player \<Rightarrow> Player \<Rightarrow> int" where
  "compareChildSeat a b =
     (if needsChildSeat a = needsChildSeat b then 0
      else if needsChildSeat a then - 1 else 1)"

fun insertBy :: "('a \<Rightarrow> 'a \<Rightarrow> int) \<Rightarrow> 'a \<Rightarrow> 'a list \<Rightarrow> 'a list" where
  "insertBy cmp x [] = [x]"
| "insertBy cmp x (y # ys) = (if cmp x y \<le> 0 then x # y # ys else y # insertBy cmp x ys)"

definition sortBy :: "('a \<Rightarrow> 'a \<Rightarrow> int) \<Rightarrow> 'a list \<Rightarrow> 'a list" where
  "sortBy cmp xs = foldr (insertBy cmp) xs []"

definition sortedPlayers :: "Player list \<Rightarrow> Player list" where
  "sortedPlayers going = sortBy compareChildSeat going"

text \<open>
  The body of \<open>buckets.forEach\<close> (lines 700-720), on the pair
  \<open>(bestDriverIndex, bestScore)\<close>. The three early returns are the feasibility test.
\<close>

definition feasible :: "Eligibility list \<Rightarrow> Player \<Rightarrow> Bucket \<Rightarrow> bool" where
  "feasible allEligibility player bucket =
     (\<not> le_zero (remainingSeats bucket)
      \<and> \<not> (needsChildSeat player \<and> le_zero (remainingChildSeats bucket))
      \<and> isAllowed allEligibility (EventDriver.driverId bucket) (Player.id' player))"

definition scoreOf :: "Eligibility list \<Rightarrow> Player \<Rightarrow> Bucket \<Rightarrow> int" where
  "scoreOf allEligibility player bucket =
     (let score = 10;
          pref = getPreference allEligibility (EventDriver.driverId bucket) (Player.id' player);
          score = (if pref = Pref_always then score + 50 else score);
          score = (if pref = Pref_prefer then score + 20 else score)
      in score)"

definition visit ::
  "Eligibility list \<Rightarrow> Player \<Rightarrow> int \<times> int \<Rightarrow> Bucket \<times> nat \<Rightarrow> int \<times> int" where
  "visit allEligibility player best bi =
     (case bi of (bucket, idx) \<Rightarrow>
        if le_zero (remainingSeats bucket) then best
        else if needsChildSeat player \<and> le_zero (remainingChildSeats bucket) then best
        else if \<not> isAllowed allEligibility (EventDriver.driverId bucket) (Player.id' player)
          then best
        else
          (let score = scoreOf allEligibility player bucket
           in if score > snd best then (int idx, score) else best))"

definition findBest :: "Eligibility list \<Rightarrow> Player \<Rightarrow> Bucket list \<Rightarrow> int \<times> int" where
  "findBest allEligibility player bs =
     foldl (visit allEligibility player) (- 1, - 1) (zip bs [0..<length bs])"

text \<open>
  The state of the \<open>for\<close> loop over the sorted players. \<open>generateId\<close> (line 119) draws
  from \<open>Math.random\<close>; the model takes the ids of one run as a sequence \<open>ids\<close>, and
  \<open>idsDrawn\<close> counts the calls made so far.
\<close>

record Pass =
  buckets :: "Bucket list"
  newAssignments :: "Assignment list"
  unassignedIds :: "ID list"
  idsDrawn :: nat

definition commit :: "Player \<Rightarrow> Bucket \<Rightarrow> Bucket" where
  "commit player b =
     (let b = b\<lparr>remainingSeats := decrement (remainingSeats b)\<rparr>;
          b = (if needsChildSeat player
               then b\<lparr>remainingChildSeats := decrement (remainingChildSeats b)\<rparr> else b)
      in b\<lparr>assignedPlayerIds := assignedPlayerIds b @ [Player.id' player]\<rparr>)"

definition assignPlayer ::
  "ID \<Rightarrow> (nat \<Rightarrow> ID) \<Rightarrow> Eligibility list \<Rightarrow> Pass \<Rightarrow> Player \<Rightarrow> Pass" where
  "assignPlayer ev ids allEligibility s player =
     (let bestDriverIndex = fst (findBest allEligibility player (buckets s))
      in if bestDriverIndex \<noteq> - 1 then
           (let i = nat bestDriverIndex;
                bs = (buckets s)[i := commit player (buckets s ! i)]
            in s\<lparr>buckets := bs,
                 newAssignments := newAssignments s @
                   [\<lparr>Assignment.id' = ids (idsDrawn s), eventId = ev,
                     driverId = EventDriver.driverId (bs ! i),
                     playerId = Player.id' player, direction = Dir_both\<rparr>],
                 idsDrawn := Suc (idsDrawn s)\<rparr>)
         else
           s\<lparr>unassignedIds := unassignedIds s @ [Player.id' player],
             newAssignments := newAssignments s @
               [\<lparr>Assignment.id' = ids (idsDrawn s), eventId = ev,
                 driverId = ''unassigned'',
                 playerId = Player.id' player, direction = Dir_both\<rparr>],
             idsDrawn := Suc (idsDrawn s)\<rparr>)"

definition initialPass :: "EventDriver list \<Rightarrow> Pass" where
  "initialPass active =
     \<lparr>buckets = bucketsOf active, newAssignments = [], unassignedIds = [], idsDrawn = 0\<rparr>"

definition runPass ::
  "ID \<Rightarrow> (nat \<Rightarrow> ID) \<Rightarrow> Eligibility list \<Rightarrow> EventDriver list \<Rightarrow> Player list \<Rightarrow> Pass" where
  "runPass ev ids allEligibility active players =
     foldl (assignPlayer ev ids allEligibility) (initialPass active) players"

definition generateCarpool ::
  "ID \<Rightarrow> (nat \<Rightarrow> ID) \<Rightarrow> Player list \<Rightarrow> Eligibility list \<Rightarrow> EventAttendance list \<Rightarrow>
   EventDriver list \<Rightarrow> World \<Rightarrow> World" where
  "generateCarpool ev ids allPlayers allEligibility localAttendance localEventDrivers w =
     (let going = goingPlayers allPlayers localAttendance;
          active = activeDrivers localEventDrivers
      in if length active = 0 then w\<lparr>alerts := alerts w @ [Alert_no_drivers]\<rparr>
         else
           (let s = runPass ev ids allEligibility active (sortedPlayers going);
                otherAssignments = filter (\<lambda>a. Assignment.eventId a \<noteq> ev) (assignmentsDB w);
                w = w\<lparr>assignmentsDB := otherAssignments @ newAssignments s\<rparr>;
                w = refreshData ev w;
                w = w\<lparr>tab := Tab_carpool\<rparr>
            in w\<lparr>alerts := alerts w @ [Alert_generated (length (unassignedIds s))]\<rparr>))"

section \<open>Manual override (lines 888-909)\<close>

text \<open>
  \<open>!draggedPlayerId\<close> holds for \<open>null\<close> and for the empty string.
\<close>

definition handleDrop :: "ID \<Rightarrow> (nat \<Rightarrow> ID) \<Rightarrow> ID \<Rightarrow> World \<Rightarrow> World" where
  "handleDrop ev ids targetDriverId w =
     (case draggedPlayerId w of
        None \<Rightarrow> w
      | Some dragged \<Rightarrow>
          if dragged = [] then w
          else
            (let filtered = filter (\<lambda>a. Assignment.playerId a \<noteq> dragged) (assignments w);
                 newAssign = \<lparr>Assignment.id' = ids 0, eventId = ev, driverId = targetDriverId,
                              playerId = dragged, direction = Dir_both\<rparr>;
                 otherEvents = filter (\<lambda>a. Assignment.eventId a \<noteq> ev) (assignmentsDB w);
                 w = w\<lparr>assignmentsDB := otherEvents @ filtered @ [newAssign]\<rparr>;
                 w = w\<lparr>draggedPlayerId := None\<rparr>
             in refreshData ev w))"

text \<open>The load the board shows for a driver (line 911).\<close>

definition getDriverLoad :: "Assignment list \<Rightarrow> ID \<Rightarrow> nat" where
  "getDriverLoad as did = length (filter (\<lambda>a. Assignment.driverId a = did) as)"


section \<open>Notions used to state the properties\<close>

text \<open>
  The number of child-seat players among the rows that name a driver. Row \<open>k\<close> of the
  pass is the row built for player \<open>k\<close> of the sorted list, so the rows are paired with
  the players by position.
\<close>

definition childSeatLoad :: "Player list \<Rightarrow> Assignment list \<Rightarrow> ID \<Rightarrow> nat" where
  "childSeatLoad ps as did =
     length (filter (\<lambda>pa. needsChildSeat (fst pa) \<and> Assignment.driverId (snd pa) = did)
               (zip ps as))"

text \<open>
  Availability records as the data model describes them: one record per driver of the
  event, no driver called by the sentinel \<open>'unassigned'\<close>, and seat counts that are
  numbers and not negative.
\<close>

definition wellFormedDrivers :: "EventDriver list \<Rightarrow> bool" where
  "wellFormedDrivers ds =
     (distinct (map EventDriver.driverId ds)
      \<and> ''unassigned'' \<notin> set (map EventDriver.driverId ds)
      \<and> (\<forall>d \<in> set ds. \<exists>c \<ge> 0. availableSeatsTotal d = Some c)
      \<and> (\<forall>d \<in> set ds. \<exists>c \<ge> 0. availableChildSeats d = Some c))"

text \<open>
  The loop invariant of the pass over the players \<open>ps\<close> processed so far: bucket \<open>i\<close>
  still belongs to driver \<open>i\<close>, its counters are not negative, and each counter plus
  the seats given away is the count the record offered.
\<close>

definition capacityInv :: "EventDriver list \<Rightarrow> Player list \<Rightarrow> Pass \<Rightarrow> bool" where
  "capacityInv ds ps s =
     (length (buckets s) = length ds \<and> length (newAssignments s) = length ps
      \<and> (\<forall>i < length ds.
            EventDriver.driverId (buckets s ! i) = EventDriver.driverId (ds ! i)
          \<and> (\<exists>r. remainingSeats (buckets s ! i) = Some r \<and> 0 \<le> r
                \<and> availableSeatsTotal (ds ! i)
                    = Some (r + int (getDriverLoad (newAssignments s)
                                       (EventDriver.driverId (ds ! i)))))
          \<and> (\<exists>r. remainingChildSeats (buckets s ! i) = Some r \<and> 0 \<le> r
                \<and> availableChildSeats (ds ! i)
                    = Some (r + int (childSeatLoad ps (newAssignments s)
                                       (EventDriver.driverId (ds ! i)))))))"

text \<open>
  What the scan over the buckets has to return: \<open>(-1, -1)\<close> when no bucket is feasible,
  and otherwise the index and score of the first feasible bucket whose score no feasible
  bucket exceeds.
\<close>

definition chosen :: "Eligibility list \<Rightarrow> Player \<Rightarrow> Bucket list \<Rightarrow> int \<times> int \<Rightarrow> bool" where
  "chosen rules p bs r =
     (if \<forall>b \<in> set bs. \<not> feasible rules p b then r = (- 1, - 1)
      else \<exists>k < length bs.
             r = (int k, scoreOf rules p (bs ! k))
           \<and> feasible rules p (bs ! k)
           \<and> (\<forall>j < length bs. feasible rules p (bs ! j) \<longrightarrow>
                  scoreOf rules p (bs ! j) \<le> scoreOf rules p (bs ! k))
           \<and> (\<forall>j < k. feasible rules p (bs ! j) \<longrightarrow>
                  scoreOf rules p (bs ! j) < scoreOf rules p (bs ! k)))"

text \<open>The two rows \<open>assignPlayer\<close> can append.\<close>

definition unassignedRow :: "ID \<Rightarrow> (nat \<Rightarrow> ID) \<Rightarrow> Pass \<Rightarrow> Player \<Rightarrow> Assignment" where
  "unassignedRow ev ids s p =
     \<lparr>Assignment.id' = ids (idsDrawn s), eventId = ev, driverId = ''unassigned'',
      playerId = Player.id' p, direction = Dir_both\<rparr>"

definition assignedRow :: "ID \<Rightarrow> (nat \<Rightarrow> ID) \<Rightarrow> Pass \<Rightarrow> Player \<Rightarrow> nat \<Rightarrow> Assignment" where
  "assignedRow ev ids s p k =
     \<lparr>Assignment.id' = ids (idsDrawn s), eventId = ev,
      driverId = EventDriver.driverId (buckets s ! k),
      playerId = Player.id' p, direction = Dir_both\<rparr>"

text \<open>At most one assignment per (eventId, playerId).\<close>

definition singleRide :: "Assignment list \<Rightarrow> bool" where
  "singleRide as = distinct (map (\<lambda>a. (Assignment.eventId a, Assignment.playerId a)) as)"

text \<open>An assignment without its random id, and two pass states that agree but for the ids.\<close>

definition forgetId :: "Assignment \<Rightarrow> Assignment" where
  "forgetId a = a\<lparr>Assignment.id' := []\<rparr>"

definition sameUpToIds :: "Pass \<Rightarrow> Pass \<Rightarrow> bool" where
  "sameUpToIds s t =
     (buckets s = buckets t \<and> unassignedIds s = unassignedIds t
      \<and> map forgetId (newAssignments s) = map forgetId (newAssignments t))"


section \<open>Example data\<close>

text \<open>Small concrete records for event \<open>''e''\<close>, used to run the definitions.\<close>

definition examplePlayer :: "ID \<Rightarrow> bool \<Rightarrow> Player" where
  "examplePlayer i c =
     \<lparr>Player.id' = i, name = '''', teamName = '''', grade = '''', needsChildSeat = c,
      groupIds = []\<rparr>"

definition exampleAttendance :: "ID \<Rightarrow> EventAttendance" where
  "exampleAttendance i =
     \<lparr>EventAttendance.eventId = ''e'', playerId = i, isGoing = True, needsRide = True\<rparr>"

definition exampleAvailability :: "ID \<Rightarrow> bool \<Rightarrow> number \<Rightarrow> number \<Rightarrow> EventDriver" where
  "exampleAvailability i drv s c =
     \<lparr>EventDriver.eventId = ''e'', driverId = i, isDriving = drv, direction = Dir_both,
      availableSeatsTotal = s, availableChildSeats = c, notes' = ''''\<rparr>"

definition exampleRule :: "ID \<Rightarrow> ID \<Rightarrow> bool \<Rightarrow> Preference \<Rightarrow> Eligibility" where
  "exampleRule d p a pr =
     \<lparr>Eligibility.driverId = d, playerId = p, allowed = a, preference = pr\<rparr>"

definition exampleAssignment :: "ID \<Rightarrow> ID \<Rightarrow> ID \<Rightarrow> Assignment" where
  "exampleAssignment i d p =
     \<lparr>Assignment.id' = i, eventId = ''e'', driverId = d, playerId = p, direction = Dir_both\<rparr>"

definition exampleWorld :: World where
  "exampleWorld =
     \<lparr>assignmentsDB = [], assignments = [], tab = Tab_attendance, alerts = [],
      draggedPlayerId = None\<rparr>"

text \<open>A run in which \<open>generateId\<close> returns \<open>i\<close> at every call.\<close>

definition exampleIds :: "ID \<Rightarrow> nat \<Rightarrow> ID" where
  "exampleIds i n = i"

definition exampleDriver :: "ID \<Rightarrow> int \<Rightarrow> int \<Rightarrow> Driver" where
  "exampleDriver i s c =
     \<lparr>Driver.id' = i, name = '''', hasLicense = True, maxSeatsTotal = s, maxChildSeats = c,
      notes' = ''''\<rparr>"

text \<open>
  Three buckets, the roomiest first; two buckets of which the first is full; a board on
  which driver \<open>d\<close> carries \<open>p1\<close> and \<open>p2\<close>, unassigned, is being dragged.
\<close>

definition exampleBuckets :: Pass where
  "exampleBuckets = initialPass
     [exampleAvailability ''d1'' True (Some 3) (Some 0),
      exampleAvailability ''d2'' True (Some 1) (Some 0),
      exampleAvailability ''d3'' True (Some 2) (Some 0)]"

definition exampleFull :: Pass where
  "exampleFull = initialPass
     [exampleAvailability ''d1'' True (Some 0) (Some 0),
      exampleAvailability ''d2'' True (Some 2) (Some 0)]"

definition exampleBoard :: World where
  "exampleBoard =
     \<lparr>assignmentsDB =
        [exampleAssignment ''x1'' ''d'' ''p1'', exampleAssignment ''x2'' ''unassigned'' ''p2''],
      assignments =
        [exampleAssignment ''x1'' ''d'' ''p1'', exampleAssignment ''x2'' ''unassigned'' ''p2''],
      tab = Tab_carpool, alerts = [], draggedPlayerId = Some ''p2''\<rparr>"


section \<open>The eligibility resolver with duplicate rules\<close>

lemma find_first_match:
  assumes "\<forall>e \<in> set pre. \<not> Q e" and "Q r"
  shows "find Q (pre @ r # post) = Some r"
  using assms by (induction pre) auto

text \<open>
  C10. \<open>Array.prototype.find\<close> returns the first element that matches, and both
  \<open>isAllowed\<close> and \<open>getPreference\<close> run the same search: when a rule \<open>r\<close> for the pair
  is preceded by no other rule for the pair, the verdict and the preference are those of
  \<open>r\<close>, whatever rules for the same pair follow it.
\<close>

theorem first_matching_rule_decides:
  assumes "\<forall>e \<in> set pre. \<not> (Eligibility.driverId e = did \<and> Eligibility.playerId e = pid)"
    and "Eligibility.driverId r = did" and "Eligibility.playerId r = pid"
  shows "isAllowed (pre @ r # post) did pid = allowed r
       \<and> getPreference (pre @ r # post) did pid = preference r"
proof -
  let ?Q = "\<lambda>e. Eligibility.driverId e = did \<and> Eligibility.playerId e = pid"
  have "find ?Q (pre @ r # post) = Some r"
    using assms by (intro find_first_match) auto
  then show ?thesis by (simp add: isAllowed_def getPreference_def)
qed

theorem first_matching_rule_decides_witness:
  "isAllowed
     ([exampleRule ''d2'' ''p'' True Pref_prefer]
      @ exampleRule ''d'' ''p'' False Pref_always
      # [exampleRule ''d'' ''p'' True Pref_none])
     ''d'' ''p'' = False
   \<and> getPreference
     ([exampleRule ''d2'' ''p'' True Pref_prefer]
      @ exampleRule ''d'' ''p'' False Pref_always
      # [exampleRule ''d'' ''p'' True Pref_none])
     ''d'' ''p'' = Pref_always"
  using first_matching_rule_decides
    [of "[exampleRule ''d2'' ''p'' True Pref_prefer]" "''d''" "''p''"
        "exampleRule ''d'' ''p'' False Pref_always"
        "[exampleRule ''d'' ''p'' True Pref_none]"]
  by (simp add: exampleRule_def)

section \<open>Ordering of the candidates\<close>

lemma insertBy_child:
  "needsChildSeat x \<Longrightarrow>
   insertBy compareChildSeat x (filter needsChildSeat ys @ filter (\<lambda>p. \<not> needsChildSeat p) zs)
     = x # filter needsChildSeat ys @ filter (\<lambda>p. \<not> needsChildSeat p) zs"
  by (cases "filter needsChildSeat ys @ filter (\<lambda>p. \<not> needsChildSeat p) zs")
     (auto simp: compareChildSeat_def)

lemma insertBy_no_child_tail:
  "\<not> needsChildSeat x \<Longrightarrow>
   insertBy compareChildSeat x (filter (\<lambda>p. \<not> needsChildSeat p) zs)
     = x # filter (\<lambda>p. \<not> needsChildSeat p) zs"
proof (cases "filter (\<lambda>p. \<not> needsChildSeat p) zs")
  case Nil
  then show ?thesis by simp
next
  case (Cons z zs')
  then have "z \<in> set (filter (\<lambda>p. \<not> needsChildSeat p) zs)" by simp
  then have "\<not> needsChildSeat z" by simp
  with Cons show ?thesis by (simp add: compareChildSeat_def)
qed

lemma insertBy_no_child:
  assumes "\<not> needsChildSeat x" and "\<forall>c \<in> set cs. needsChildSeat c"
  shows "insertBy compareChildSeat x (cs @ filter (\<lambda>p. \<not> needsChildSeat p) zs)
     = cs @ x # filter (\<lambda>p. \<not> needsChildSeat p) zs"
  using assms
  by (induction cs) (auto simp: insertBy_no_child_tail compareChildSeat_def)

lemma sortBy_Cons: "sortBy cmp (x # xs) = insertBy cmp x (sortBy cmp xs)"
  by (simp add: sortBy_def)

lemma sortBy_compareChildSeat:
  "sortBy compareChildSeat xs = filter needsChildSeat xs @ filter (\<lambda>p. \<not> needsChildSeat p) xs"
proof (induction xs)
  case Nil
  show ?case by (simp add: sortBy_def)
next
  case (Cons x xs)
  show ?case
  proof (cases "needsChildSeat x")
    case True
    then show ?thesis using Cons insertBy_child[of x xs xs] by (simp add: sortBy_Cons)
  next
    case False
    then show ?thesis
      using Cons insertBy_no_child[of x "filter needsChildSeat xs" xs] by (simp add: sortBy_Cons)
  qed
qed

text \<open>
  C6. The sorted candidate list is the candidates that need a child seat, in input order,
  followed by the candidates that do not, in input order.
\<close>

theorem child_seat_first_stable:
  "sortedPlayers (goingPlayers allPlayers localAttendance)
     = filter needsChildSeat (goingPlayers allPlayers localAttendance)
       @ filter (\<lambda>p. \<not> needsChildSeat p) (goingPlayers allPlayers localAttendance)"
  by (simp add: sortedPlayers_def sortBy_compareChildSeat)

theorem child_seat_first_stable_witness:
  "map Player.id'
     (sortedPlayers (goingPlayers
        [examplePlayer ''p1'' False, examplePlayer ''p2'' True, examplePlayer ''p3'' False,
         examplePlayer ''p4'' True, examplePlayer ''p5'' True]
        [exampleAttendance ''p1'', exampleAttendance ''p2'', exampleAttendance ''p3'',
         exampleAttendance ''p4'']))
   = [''p2'', ''p4'', ''p1'', ''p3'']"
  using child_seat_first_stable
    [of "[examplePlayer ''p1'' False, examplePlayer ''p2'' True, examplePlayer ''p3'' False,
          examplePlayer ''p4'' True, examplePlayer ''p5'' True]"
        "[exampleAttendance ''p1'', exampleAttendance ''p2'', exampleAttendance ''p3'',
          exampleAttendance ''p4'']"]
  by (simp add: goingPlayers_def examplePlayer_def exampleAttendance_def)

section \<open>No active driver\<close>

text \<open>
  C4. When no availability record of the event has \<open>isDriving\<close> set, the generator shows
  the alert \<open>'No drivers marked for this event!'\<close> and returns: the database, the
  loaded assignments and the tab are as before, and no assignment was built.
\<close>

theorem no_drivers_reported:
  assumes "\<forall>d \<in> set localEventDrivers. \<not> isDriving d"
  shows "generateCarpool ev ids allPlayers allEligibility localAttendance localEventDrivers w
           = w\<lparr>alerts := alerts w @ [Alert_no_drivers]\<rparr>"
proof -
  have "activeDrivers localEventDrivers = []"
    using assms by (simp add: activeDrivers_def)
  then show ?thesis by (simp add: generateCarpool_def Let_def)
qed

theorem no_drivers_reported_witness:
  "\<not> isDriving (exampleAvailability ''d'' False (Some 4) (Some 1))
   \<and> generateCarpool ''e'' (\<lambda>n. ''x'') [examplePlayer ''p1'' False] []
        [exampleAttendance ''p1''] [exampleAvailability ''d'' False (Some 4) (Some 1)]
        exampleWorld
      = exampleWorld\<lparr>alerts := [Alert_no_drivers]\<rparr>"
  using no_drivers_reported
    [of "[exampleAvailability ''d'' False (Some 4) (Some 1)]" "''e''" "\<lambda>n. ''x''"
        "[examplePlayer ''p1'' False]" "[]" "[exampleAttendance ''p1'']" exampleWorld]
  by (simp add: exampleAvailability_def exampleWorld_def)


section \<open>The scan over the buckets\<close>

lemma visit_eq:
  "visit rules p best (b, idx) =
     (if feasible rules p b \<and> scoreOf rules p b > snd best then (int idx, scoreOf rules p b)
      else best)"
  by (auto simp: visit_def feasible_def Let_def)

lemma findBest_Nil: "findBest rules p [] = (- 1, - 1)"
  by (simp add: findBest_def)

lemma findBest_snoc:
  "findBest rules p (bs @ [b]) = visit rules p (findBest rules p bs) (b, length bs)"
  by (simp add: findBest_def)

lemma scoreOf_cases:
  "scoreOf rules p b =
     (case getPreference rules (EventDriver.driverId b) (Player.id' p) of
        Pref_none \<Rightarrow> 10 | Pref_prefer \<Rightarrow> 30 | Pref_always \<Rightarrow> 60)"
  by (simp add: scoreOf_def Let_def split: Preference.splits)

lemma scoreOf_pos: "scoreOf rules p b \<ge> 10"
  by (simp add: scoreOf_cases split: Preference.splits)

lemma findBest_chosen: "chosen rules p bs (findBest rules p bs)"
proof (induction bs rule: rev_induct)
  case Nil
  show ?case by (simp add: chosen_def findBest_Nil)
next
  case (snoc b bs)
  let ?r = "findBest rules p bs"
  show ?case
  proof (cases "\<forall>b \<in> set bs. \<not> feasible rules p b")
    case none: True
    then have r: "?r = (- 1, - 1)" using snoc by (simp add: chosen_def)
    show ?thesis
    proof (cases "feasible rules p b")
      case True
      have "findBest rules p (bs @ [b]) = (int (length bs), scoreOf rules p b)"
        using True r scoreOf_pos[of rules p b] by (simp add: findBest_snoc visit_eq)
      moreover have "\<forall>j < length bs. \<not> feasible rules p (bs ! j)"
        using none by simp
      ultimately show ?thesis using True
        by (auto simp: chosen_def nth_append less_Suc_eq intro!: exI[of _ "length bs"])
    next
      case False
      then show ?thesis using none r by (simp add: chosen_def findBest_snoc visit_eq)
    qed
  next
    case some: False
    with snoc have "\<exists>k < length bs.
             ?r = (int k, scoreOf rules p (bs ! k))
           \<and> feasible rules p (bs ! k)
           \<and> (\<forall>j < length bs. feasible rules p (bs ! j) \<longrightarrow>
                  scoreOf rules p (bs ! j) \<le> scoreOf rules p (bs ! k))
           \<and> (\<forall>j < k. feasible rules p (bs ! j) \<longrightarrow>
                  scoreOf rules p (bs ! j) < scoreOf rules p (bs ! k))"
      by (simp add: chosen_def)
    then obtain k where k: "k < length bs" "?r = (int k, scoreOf rules p (bs ! k))"
      "feasible rules p (bs ! k)"
      "\<forall>j < length bs. feasible rules p (bs ! j) \<longrightarrow> scoreOf rules p (bs ! j) \<le> scoreOf rules p (bs ! k)"
      "\<forall>j < k. feasible rules p (bs ! j) \<longrightarrow> scoreOf rules p (bs ! j) < scoreOf rules p (bs ! k)"
      by blast
    have ex: "\<not> (\<forall>x \<in> set (bs @ [b]). \<not> feasible rules p x)" using some by auto
    show ?thesis
    proof (cases "feasible rules p b \<and> scoreOf rules p b > scoreOf rules p (bs ! k)")
      case True
      then have "findBest rules p (bs @ [b]) = (int (length bs), scoreOf rules p b)"
        using k(2) by (simp add: findBest_snoc visit_eq)
      moreover have "\<forall>j < length bs. feasible rules p (bs ! j) \<longrightarrow>
          scoreOf rules p (bs ! j) < scoreOf rules p b"
        using k(4) True by fastforce
      ultimately show ?thesis using True ex unfolding chosen_def
        by (auto simp: nth_append less_Suc_eq intro!: exI[of _ "length bs"])
    next
      case False
      then have "findBest rules p (bs @ [b]) = (int k, scoreOf rules p (bs ! k))"
        using k(2) by (auto simp add: findBest_snoc visit_eq)
      then show ?thesis using False ex k unfolding chosen_def
        by (auto simp: nth_append less_Suc_eq intro!: exI[of _ k])
    qed
  qed
qed

lemma chosen_none:
  "\<forall>b \<in> set bs. \<not> feasible rules p b \<Longrightarrow> findBest rules p bs = (- 1, - 1)"
  using findBest_chosen[of rules p bs] by (simp add: chosen_def)

lemma chosen_some:
  assumes "\<not> (\<forall>b \<in> set bs. \<not> feasible rules p b)"
  obtains k where "k < length bs" "findBest rules p bs = (int k, scoreOf rules p (bs ! k))"
      "feasible rules p (bs ! k)"
      "\<forall>j < length bs. feasible rules p (bs ! j) \<longrightarrow> scoreOf rules p (bs ! j) \<le> scoreOf rules p (bs ! k)"
      "\<forall>j < k. feasible rules p (bs ! j) \<longrightarrow> scoreOf rules p (bs ! j) < scoreOf rules p (bs ! k)"
proof -
  from assms findBest_chosen[of rules p bs] have "\<exists>k < length bs.
             findBest rules p bs = (int k, scoreOf rules p (bs ! k))
           \<and> feasible rules p (bs ! k)
           \<and> (\<forall>j < length bs. feasible rules p (bs ! j) \<longrightarrow>
                  scoreOf rules p (bs ! j) \<le> scoreOf rules p (bs ! k))
           \<and> (\<forall>j < k. feasible rules p (bs ! j) \<longrightarrow>
                  scoreOf rules p (bs ! j) < scoreOf rules p (bs ! k))"
      by (simp add: chosen_def)
  then show thesis using that by blast
qed

subsection \<open>One step of the pass\<close>

lemma bucketOf_simps [simp]:
  "EventDriver.driverId (bucketOf d) = EventDriver.driverId d"
  "remainingSeats (bucketOf d) = availableSeatsTotal d"
  "remainingChildSeats (bucketOf d) = availableChildSeats d"
  "assignedPlayerIds (bucketOf d) = []"
  by (simp_all add: bucketOf_def EventDriver.defs Bucket.defs)

lemma driverId_commit [simp]: "EventDriver.driverId (commit p b) = EventDriver.driverId b"
  by (simp add: commit_def Let_def)

lemma remainingSeats_commit [simp]:
  "remainingSeats (commit p b) = decrement (remainingSeats b)"
  by (simp add: commit_def Let_def)

lemma remainingChildSeats_commit [simp]:
  "remainingChildSeats (commit p b) =
     (if needsChildSeat p then decrement (remainingChildSeats b) else remainingChildSeats b)"
  by (simp add: commit_def Let_def)

lemma assignPlayer_unassigned:
  assumes "\<forall>b \<in> set (buckets s). \<not> feasible rules p b"
  shows "assignPlayer ev ids rules s p =
           s\<lparr>unassignedIds := unassignedIds s @ [Player.id' p],
             newAssignments := newAssignments s @ [unassignedRow ev ids s p],
             idsDrawn := Suc (idsDrawn s)\<rparr>"
  using chosen_none[OF assms] by (simp add: assignPlayer_def unassignedRow_def)

lemma assignPlayer_assigned:
  assumes "k < length (buckets s)"
    and "findBest rules p (buckets s) = (int k, sc)"
  shows "assignPlayer ev ids rules s p =
           s\<lparr>buckets := (buckets s)[k := commit p (buckets s ! k)],
             newAssignments := newAssignments s @ [assignedRow ev ids s p k],
             idsDrawn := Suc (idsDrawn s)\<rparr>"
  using assms by (simp add: assignPlayer_def assignedRow_def Let_def)

lemma assignPlayer_cases:
  obtains (unassigned) "\<forall>b \<in> set (buckets s). \<not> feasible rules p b"
      "assignPlayer ev ids rules s p =
           s\<lparr>unassignedIds := unassignedIds s @ [Player.id' p],
             newAssignments := newAssignments s @ [unassignedRow ev ids s p],
             idsDrawn := Suc (idsDrawn s)\<rparr>"
  | (assigned) k where "k < length (buckets s)" "feasible rules p (buckets s ! k)"
      "fst (findBest rules p (buckets s)) = int k"
      "assignPlayer ev ids rules s p =
           s\<lparr>buckets := (buckets s)[k := commit p (buckets s ! k)],
             newAssignments := newAssignments s @ [assignedRow ev ids s p k],
             idsDrawn := Suc (idsDrawn s)\<rparr>"
proof (cases "\<forall>b \<in> set (buckets s). \<not> feasible rules p b")
  case True
  then show thesis using unassigned assignPlayer_unassigned by blast
next
  case False
  then obtain k where k: "k < length (buckets s)"
      "findBest rules p (buckets s) = (int k, scoreOf rules p (buckets s ! k))"
      "feasible rules p (buckets s ! k)"
    by (rule chosen_some)
  show thesis
    using assigned[of k] k assignPlayer_assigned[OF k(1) k(2)] by simp
qed

lemma runPass_snoc:
  "runPass ev ids rules active (ps @ [p]) =
     assignPlayer ev ids rules (runPass ev ids rules active ps) p"
  by (simp add: runPass_def)

lemma runPass_Nil: "runPass ev ids rules active [] = initialPass active"
  by (simp add: runPass_def)

text \<open>
  C5. The score of a bucket is 10, plus 50 when the resolved preference is \<open>always\<close>,
  plus 20 when it is \<open>prefer\<close>; nothing else enters it. Each candidate is handed to
  \<open>assignPlayer\<close> in the state the candidates before it left. When no bucket is
  feasible the player gets an \<open>'unassigned'\<close> row and the buckets stay as they are.
  Otherwise the player goes to the bucket at index \<open>k\<close>, where \<open>k\<close> is feasible, no
  feasible bucket scores more than \<open>k\<close>, and every feasible bucket before \<open>k\<close> scores
  strictly less: among the feasible buckets of highest score the first one wins, however
  many seats the others have left.
\<close>

theorem highest_score_first_wins:
  "scoreOf rules p b =
      10 + (if getPreference rules (EventDriver.driverId b) (Player.id' p) = Pref_always then 50 else 0)
         + (if getPreference rules (EventDriver.driverId b) (Player.id' p) = Pref_prefer then 20 else 0)
   \<and> runPass ev ids rules active (ps @ [p]) = assignPlayer ev ids rules (runPass ev ids rules active ps) p
   \<and> ((\<forall>j < length (buckets s). \<not> feasible rules p (buckets s ! j)) \<longrightarrow>
         fst (findBest rules p (buckets s)) = - 1
       \<and> buckets (assignPlayer ev ids rules s p) = buckets s
       \<and> unassignedIds (assignPlayer ev ids rules s p) = unassignedIds s @ [Player.id' p]
       \<and> newAssignments (assignPlayer ev ids rules s p) = newAssignments s @
           [\<lparr>Assignment.id' = ids (idsDrawn s), eventId = ev, driverId = ''unassigned'',
             playerId = Player.id' p, direction = Dir_both\<rparr>])
   \<and> ((\<exists>j < length (buckets s). feasible rules p (buckets s ! j)) \<longrightarrow>
         (\<exists>k < length (buckets s).
            fst (findBest rules p (buckets s)) = int k
          \<and> feasible rules p (buckets s ! k)
          \<and> (\<forall>j < length (buckets s). feasible rules p (buckets s ! j) \<longrightarrow>
                scoreOf rules p (buckets s ! j) \<le> scoreOf rules p (buckets s ! k))
          \<and> (\<forall>j < k. feasible rules p (buckets s ! j) \<longrightarrow>
                scoreOf rules p (buckets s ! j) < scoreOf rules p (buckets s ! k))
          \<and> buckets (assignPlayer ev ids rules s p) = (buckets s)[k := commit p (buckets s ! k)]
          \<and> unassignedIds (assignPlayer ev ids rules s p) = unassignedIds s
          \<and> newAssignments (assignPlayer ev ids rules s p) = newAssignments s @
              [\<lparr>Assignment.id' = ids (idsDrawn s), eventId = ev,
                driverId = EventDriver.driverId (buckets s ! k),
                playerId = Player.id' p, direction = Dir_both\<rparr>]))"
proof (intro conjI impI)
  show "scoreOf rules p b =
      10 + (if getPreference rules (EventDriver.driverId b) (Player.id' p) = Pref_always then 50 else 0)
         + (if getPreference rules (EventDriver.driverId b) (Player.id' p) = Pref_prefer then 20 else 0)"
    by (simp add: scoreOf_def Let_def)
  show "runPass ev ids rules active (ps @ [p]) = assignPlayer ev ids rules (runPass ev ids rules active ps) p"
    by (rule runPass_snoc)
next
  assume "\<forall>j < length (buckets s). \<not> feasible rules p (buckets s ! j)"
  then have none: "\<forall>b \<in> set (buckets s). \<not> feasible rules p b"
    by (auto simp: in_set_conv_nth)
  show "fst (findBest rules p (buckets s)) = - 1"
    using chosen_none[OF none] by simp
  show "buckets (assignPlayer ev ids rules s p) = buckets s"
    by (simp add: assignPlayer_unassigned[OF none])
  show "unassignedIds (assignPlayer ev ids rules s p) = unassignedIds s @ [Player.id' p]"
    by (simp add: assignPlayer_unassigned[OF none])
  show "newAssignments (assignPlayer ev ids rules s p) = newAssignments s @
           [\<lparr>Assignment.id' = ids (idsDrawn s), eventId = ev, driverId = ''unassigned'',
             playerId = Player.id' p, direction = Dir_both\<rparr>]"
    by (simp add: assignPlayer_unassigned[OF none] unassignedRow_def)
next
  assume "\<exists>j < length (buckets s). feasible rules p (buckets s ! j)"
  then have "\<not> (\<forall>b \<in> set (buckets s). \<not> feasible rules p b)"
    by auto
  then obtain k where k: "k < length (buckets s)"
      "findBest rules p (buckets s) = (int k, scoreOf rules p (buckets s ! k))"
      "feasible rules p (buckets s ! k)"
      "\<forall>j < length (buckets s). feasible rules p (buckets s ! j) \<longrightarrow>
          scoreOf rules p (buckets s ! j) \<le> scoreOf rules p (buckets s ! k)"
      "\<forall>j < k. feasible rules p (buckets s ! j) \<longrightarrow>
          scoreOf rules p (buckets s ! j) < scoreOf rules p (buckets s ! k)"
    by (rule chosen_some)
  have step: "assignPlayer ev ids rules s p =
           s\<lparr>buckets := (buckets s)[k := commit p (buckets s ! k)],
             newAssignments := newAssignments s @ [assignedRow ev ids s p k],
             idsDrawn := Suc (idsDrawn s)\<rparr>"
    by (rule assignPlayer_assigned[OF k(1) k(2)])
  show "\<exists>k < length (buckets s).
            fst (findBest rules p (buckets s)) = int k
          \<and> feasible rules p (buckets s ! k)
          \<and> (\<forall>j < length (buckets s). feasible rules p (buckets s ! j) \<longrightarrow>
                scoreOf rules p (buckets s ! j) \<le> scoreOf rules p (buckets s ! k))
          \<and> (\<forall>j < k. feasible rules p (buckets s ! j) \<longrightarrow>
                scoreOf rules p (buckets s ! j) < scoreOf rules p (buckets s ! k))
          \<and> buckets (assignPlayer ev ids rules s p) = (buckets s)[k := commit p (buckets s ! k)]
          \<and> unassignedIds (assignPlayer ev ids rules s p) = unassignedIds s
          \<and> newAssignments (assignPlayer ev ids rules s p) = newAssignments s @
              [\<lparr>Assignment.id' = ids (idsDrawn s), eventId = ev,
                driverId = EventDriver.driverId (buckets s ! k),
                playerId = Player.id' p, direction = Dir_both\<rparr>]"
    using k by (intro exI[of _ k]) (simp add: step assignedRow_def)
qed

theorem highest_score_first_wins_witness:
  "fst (findBest [exampleRule ''d2'' ''p'' True Pref_prefer, exampleRule ''d3'' ''p'' True Pref_prefer]
          (examplePlayer ''p'' False) (buckets exampleBuckets)) = 1
   \<and> map Assignment.driverId (newAssignments (assignPlayer ''e'' (\<lambda>n. ''x'')
          [exampleRule ''d2'' ''p'' True Pref_prefer, exampleRule ''d3'' ''p'' True Pref_prefer]
          exampleBuckets (examplePlayer ''p'' False))) = [''d2'']
   \<and> fst (findBest [exampleRule ''d2'' ''p'' False Pref_always]
          (examplePlayer ''p'' False) (buckets exampleFull)) = - 1
   \<and> map Assignment.driverId (newAssignments (assignPlayer ''e'' (\<lambda>n. ''x'')
          [exampleRule ''d2'' ''p'' False Pref_always]
          exampleFull (examplePlayer ''p'' False))) = [''unassigned'']"
proof -
  let ?U = "[exampleRule ''d2'' ''p'' True Pref_prefer, exampleRule ''d3'' ''p'' True Pref_prefer]"
  let ?V = "[exampleRule ''d2'' ''p'' False Pref_always]"
  let ?p = "examplePlayer ''p'' False"
  have len: "length (buckets exampleBuckets) = 3" and len0: "length (buckets exampleFull) = 2"
    by (simp_all add: exampleBuckets_def exampleFull_def initialPass_def bucketsOf_def)
  have f0: "feasible ?U ?p (buckets exampleBuckets ! 0)"
    and f1: "feasible ?U ?p (buckets exampleBuckets ! 1)"
    and f2: "feasible ?U ?p (buckets exampleBuckets ! 2)"
    by code_simp+
  have sc: "scoreOf ?U ?p (buckets exampleBuckets ! 0) = 10"
    "scoreOf ?U ?p (buckets exampleBuckets ! 1) = 30"
    "scoreOf ?U ?p (buckets exampleBuckets ! 2) = 30"
    by code_simp+
  have n0: "\<not> feasible ?V ?p (buckets exampleFull ! 0)"
    and n1: "\<not> feasible ?V ?p (buckets exampleFull ! 1)"
    by code_simp+
  have ex: "\<exists>j < length (buckets exampleBuckets). feasible ?U ?p (buckets exampleBuckets ! j)"
    using f0 len by (intro exI[of _ 0]) simp
  have "\<exists>k < length (buckets exampleBuckets).
            fst (findBest ?U ?p (buckets exampleBuckets)) = int k
          \<and> feasible ?U ?p (buckets exampleBuckets ! k)
          \<and> (\<forall>j < length (buckets exampleBuckets). feasible ?U ?p (buckets exampleBuckets ! j) \<longrightarrow>
                scoreOf ?U ?p (buckets exampleBuckets ! j) \<le> scoreOf ?U ?p (buckets exampleBuckets ! k))
          \<and> (\<forall>j < k. feasible ?U ?p (buckets exampleBuckets ! j) \<longrightarrow>
                scoreOf ?U ?p (buckets exampleBuckets ! j) < scoreOf ?U ?p (buckets exampleBuckets ! k))
          \<and> buckets (assignPlayer ''e'' (\<lambda>n. ''x'') ?U exampleBuckets ?p)
               = (buckets exampleBuckets)[k := commit ?p (buckets exampleBuckets ! k)]
          \<and> unassignedIds (assignPlayer ''e'' (\<lambda>n. ''x'') ?U exampleBuckets ?p)
               = unassignedIds exampleBuckets
          \<and> newAssignments (assignPlayer ''e'' (\<lambda>n. ''x'') ?U exampleBuckets ?p)
               = newAssignments exampleBuckets @
              [\<lparr>Assignment.id' = (\<lambda>n. ''x'') (idsDrawn exampleBuckets), eventId = ''e'',
                driverId = EventDriver.driverId (buckets exampleBuckets ! k),
                playerId = Player.id' ?p, direction = Dir_both\<rparr>]"
    using highest_score_first_wins
      [of ?U ?p "buckets exampleBuckets ! 0" "''e''" "\<lambda>n. ''x''" "[]" "[]" exampleBuckets] ex
    by blast
  then obtain k where k: "k < 3" "fst (findBest ?U ?p (buckets exampleBuckets)) = int k"
      "\<forall>j < 3. feasible ?U ?p (buckets exampleBuckets ! j) \<longrightarrow>
          scoreOf ?U ?p (buckets exampleBuckets ! j) \<le> scoreOf ?U ?p (buckets exampleBuckets ! k)"
      "\<forall>j < k. feasible ?U ?p (buckets exampleBuckets ! j) \<longrightarrow>
          scoreOf ?U ?p (buckets exampleBuckets ! j) < scoreOf ?U ?p (buckets exampleBuckets ! k)"
      "newAssignments (assignPlayer ''e'' (\<lambda>n. ''x'') ?U exampleBuckets ?p)
         = newAssignments exampleBuckets @
              [\<lparr>Assignment.id' = ''x'', eventId = ''e'',
                driverId = EventDriver.driverId (buckets exampleBuckets ! k),
                playerId = Player.id' ?p, direction = Dir_both\<rparr>]"
    unfolding len by blast
  have "k = 1"
  proof -
    have "k \<noteq> 0"
    proof
      assume "k = 0"
      moreover from k(3) f1
      have "scoreOf ?U ?p (buckets exampleBuckets ! 1) \<le> scoreOf ?U ?p (buckets exampleBuckets ! k)"
        by simp
      ultimately show False using sc by simp
    qed
    moreover have "k \<noteq> 2"
    proof
      assume "k = 2"
      moreover from this k(4) f1
      have "scoreOf ?U ?p (buckets exampleBuckets ! 1) < scoreOf ?U ?p (buckets exampleBuckets ! k)"
        by simp
      ultimately show False using sc by simp
    qed
    ultimately show ?thesis using k(1) by linarith
  qed
  then have a: "fst (findBest ?U ?p (buckets exampleBuckets)) = 1"
    "map Assignment.driverId (newAssignments (assignPlayer ''e'' (\<lambda>n. ''x'') ?U exampleBuckets ?p))
       = [''d2'']"
    using k(2,5)
    by (simp_all add: exampleBuckets_def initialPass_def bucketsOf_def exampleAvailability_def)
  have none: "\<forall>j < length (buckets exampleFull). \<not> feasible ?V ?p (buckets exampleFull ! j)"
    using n0 n1 by (simp add: len0 numeral_2_eq_2 less_Suc_eq)
  have b: "fst (findBest ?V ?p (buckets exampleFull)) = - 1
       \<and> buckets (assignPlayer ''e'' (\<lambda>n. ''x'') ?V exampleFull ?p) = buckets exampleFull
       \<and> unassignedIds (assignPlayer ''e'' (\<lambda>n. ''x'') ?V exampleFull ?p)
            = unassignedIds exampleFull @ [Player.id' ?p]
       \<and> newAssignments (assignPlayer ''e'' (\<lambda>n. ''x'') ?V exampleFull ?p) = newAssignments exampleFull @
           [\<lparr>Assignment.id' = (\<lambda>n. ''x'') (idsDrawn exampleFull), eventId = ''e'', driverId = ''unassigned'',
             playerId = Player.id' ?p, direction = Dir_both\<rparr>]"
    using highest_score_first_wins
      [of ?V ?p "buckets exampleFull ! 0" "''e''" "\<lambda>n. ''x''" "[]" "[]" exampleFull] none
    by blast
  show ?thesis using a b by (simp add: exampleFull_def initialPass_def)
qed



section \<open>The rows a run writes\<close>

lemma newAssignments_step:
  "\<exists>d. newAssignments (assignPlayer ev ids rules s p) =
     newAssignments s @
       [\<lparr>Assignment.id' = ids (idsDrawn s), eventId = ev, driverId = d,
         playerId = Player.id' p, direction = Dir_both\<rparr>]"
  by (cases rule: assignPlayer_cases[of s rules p ev ids])
     (simp_all add: unassignedRow_def assignedRow_def)

lemma idsDrawn_step: "idsDrawn (assignPlayer ev ids rules s p) = Suc (idsDrawn s)"
  by (cases rule: assignPlayer_cases[of s rules p ev ids]) simp_all

lemma runPass_rows:
  "map Assignment.playerId (newAssignments (runPass ev ids rules ds ps)) = map Player.id' ps
   \<and> map Assignment.eventId (newAssignments (runPass ev ids rules ds ps)) = map (\<lambda>p. ev) ps
   \<and> map Assignment.direction (newAssignments (runPass ev ids rules ds ps)) = map (\<lambda>p. Dir_both) ps
   \<and> map Assignment.id' (newAssignments (runPass ev ids rules ds ps)) = map ids [0..<length ps]
   \<and> idsDrawn (runPass ev ids rules ds ps) = length ps"
proof (induction ps rule: rev_induct)
  case Nil
  show ?case by (simp add: runPass_Nil initialPass_def)
next
  case (snoc p ps)
  obtain d where "newAssignments (runPass ev ids rules ds (ps @ [p])) =
     newAssignments (runPass ev ids rules ds ps) @
       [\<lparr>Assignment.id' = ids (idsDrawn (runPass ev ids rules ds ps)), eventId = ev, driverId = d,
         playerId = Player.id' p, direction = Dir_both\<rparr>]"
    using newAssignments_step[of ev ids rules "runPass ev ids rules ds ps" p]
    by (auto simp: runPass_snoc)
  then show ?case using snoc by (simp add: runPass_snoc idsDrawn_step)
qed

lemma runPass_eventId:
  "a \<in> set (newAssignments (runPass ev ids rules ds ps)) \<Longrightarrow> Assignment.eventId a = ev"
proof -
  assume "a \<in> set (newAssignments (runPass ev ids rules ds ps))"
  then have "Assignment.eventId a \<in> set (map Assignment.eventId (newAssignments (runPass ev ids rules ds ps)))"
    by simp
  then show ?thesis by (auto simp: runPass_rows)
qed

lemma filter_event_runPass:
  "filter (\<lambda>a. Assignment.eventId a = ev) (newAssignments (runPass ev ids rules ds ps))
      = newAssignments (runPass ev ids rules ds ps)"
  using runPass_eventId by (simp add: filter_id_conv)

lemma generateCarpool_active:
  assumes "activeDrivers eds \<noteq> []"
  shows "generateCarpool ev ids allPlayers rules att eds w =
     w\<lparr>assignmentsDB := filter (\<lambda>a. Assignment.eventId a \<noteq> ev) (assignmentsDB w)
           @ newAssignments (runPass ev ids rules (activeDrivers eds)
                (sortedPlayers (goingPlayers allPlayers att))),
       assignments := newAssignments (runPass ev ids rules (activeDrivers eds)
                (sortedPlayers (goingPlayers allPlayers att))),
       tab := Tab_carpool,
       alerts := alerts w @ [Alert_generated (length (unassignedIds
            (runPass ev ids rules (activeDrivers eds)
                (sortedPlayers (goingPlayers allPlayers att)))))]\<rparr>"
  using assms by (simp add: generateCarpool_def Let_def refreshData_def filter_event_runPass)

lemma generateCarpool_inactive:
  assumes "activeDrivers eds = []"
  shows "generateCarpool ev ids allPlayers rules att eds w = w\<lparr>alerts := alerts w @ [Alert_no_drivers]\<rparr>"
  using assms by (simp add: generateCarpool_def Let_def)



section \<open>Hard eligibility\<close>

lemma allowed_step:
  assumes "\<forall>a \<in> set (newAssignments s).
      Assignment.driverId a = ''unassigned'' \<or> isAllowed rules (Assignment.driverId a) (Assignment.playerId a)"
  shows "\<forall>a \<in> set (newAssignments (assignPlayer ev ids rules s p)).
      Assignment.driverId a = ''unassigned'' \<or> isAllowed rules (Assignment.driverId a) (Assignment.playerId a)"
proof (cases rule: assignPlayer_cases[of s rules p ev ids])
  case unassigned
  then show ?thesis using assms by (simp add: unassignedRow_def)
next
  case (assigned k)
  then show ?thesis using assms by (simp add: assignedRow_def feasible_def)
qed

lemma allowed_runPass:
  "\<forall>a \<in> set (newAssignments (runPass ev ids rules ds ps)).
      Assignment.driverId a = ''unassigned'' \<or> isAllowed rules (Assignment.driverId a) (Assignment.playerId a)"
proof (induction ps rule: rev_induct)
  case Nil
  show ?case by (simp add: runPass_Nil initialPass_def)
next
  case (snoc p ps)
  then show ?case using allowed_step by (simp add: runPass_snoc)
qed

lemma find_SomeD: "find P xs = Some x \<Longrightarrow> P x \<and> x \<in> set xs"
  by (induction xs) (auto split: if_splits)

lemma find_NoneD: "find P xs = None \<Longrightarrow> x \<in> set xs \<Longrightarrow> \<not> P x"
  by (induction xs) (auto split: if_splits)

lemma isAllowed_first_rule:
  assumes "\<forall>e \<in> set pre. \<not> (Eligibility.driverId e = Eligibility.driverId r
             \<and> Eligibility.playerId e = Eligibility.playerId r)"
  shows "isAllowed (pre @ r # post) (Eligibility.driverId r) (Eligibility.playerId r) = allowed r"
proof -
  have "find (\<lambda>e. Eligibility.driverId e = Eligibility.driverId r
                \<and> Eligibility.playerId e = Eligibility.playerId r) (pre @ r # post) = Some r"
    using assms by (intro find_first_match) auto
  then show ?thesis by (simp add: isAllowed_def)
qed

lemma no_rule_default:
  assumes "\<forall>r \<in> set rules. \<not> (Eligibility.driverId r = did \<and> Eligibility.playerId r = pid)"
  shows "isAllowed rules did pid \<and> getPreference rules did pid = Pref_none"
proof -
  have "find (\<lambda>e. Eligibility.driverId e = did \<and> Eligibility.playerId e = pid) rules = None"
    using assms by (simp add: find_None_iff)
  then show ?thesis by (simp add: isAllowed_def getPreference_def)
qed

text \<open>
  C7, as the code has it. Take a run that gets past the driver check and a row \<open>a\<close> of
  its output that names a real driver. The resolver allows the pair of \<open>a\<close>; so \<open>a\<close>
  is not the pair of any rule with \<open>allowed = false\<close> that is the first rule for its
  pair in list order (as the only rule for a pair is). And for a pair without a rule the
  resolver answers allowed, with preference \<open>none\<close>.
\<close>

theorem disallowed_pair_not_generated:
  assumes "activeDrivers localEventDrivers \<noteq> []"
    and "a \<in> set (assignments
           (generateCarpool ev ids allPlayers rules localAttendance localEventDrivers w))"
    and "Assignment.driverId a \<noteq> ''unassigned''"
  shows "isAllowed rules (Assignment.driverId a) (Assignment.playerId a)
       \<and> (\<forall>pre r post.
             rules = pre @ r # post
             \<and> (\<forall>e \<in> set pre. \<not> (Eligibility.driverId e = Eligibility.driverId r
                                 \<and> Eligibility.playerId e = Eligibility.playerId r))
             \<and> \<not> allowed r \<longrightarrow>
             \<not> (Assignment.driverId a = Eligibility.driverId r
                \<and> Assignment.playerId a = Eligibility.playerId r))
       \<and> (\<forall>did pid.
             (\<forall>r \<in> set rules. \<not> (Eligibility.driverId r = did \<and> Eligibility.playerId r = pid))
             \<longrightarrow> isAllowed rules did pid \<and> getPreference rules did pid = Pref_none)"
proof -
  have "a \<in> set (newAssignments (runPass ev ids rules (activeDrivers localEventDrivers)
                (sortedPlayers (goingPlayers allPlayers localAttendance))))"
    using assms(2) by (simp add: generateCarpool_active[OF assms(1)])
  then have ok: "isAllowed rules (Assignment.driverId a) (Assignment.playerId a)"
    using allowed_runPass assms(3) by blast
  have first: "\<not> (Assignment.driverId a = Eligibility.driverId r
                \<and> Assignment.playerId a = Eligibility.playerId r)"
    if "rules = pre @ r # post"
      and "\<forall>e \<in> set pre. \<not> (Eligibility.driverId e = Eligibility.driverId r
                                 \<and> Eligibility.playerId e = Eligibility.playerId r)"
      and "\<not> allowed r" for pre r post
  proof
    assume same: "Assignment.driverId a = Eligibility.driverId r
                \<and> Assignment.playerId a = Eligibility.playerId r"
    have "isAllowed rules (Eligibility.driverId r) (Eligibility.playerId r) = allowed r"
      unfolding that(1) by (rule isAllowed_first_rule[OF that(2)])
    then show False using ok same that(3) by simp
  qed
  show ?thesis
  proof (intro conjI allI impI)
    show "isAllowed rules (Assignment.driverId a) (Assignment.playerId a)" by (rule ok)
  next
    fix pre r post
    assume "rules = pre @ r # post
             \<and> (\<forall>e \<in> set pre. \<not> (Eligibility.driverId e = Eligibility.driverId r
                                 \<and> Eligibility.playerId e = Eligibility.playerId r))
             \<and> \<not> allowed r"
    then show "\<not> (Assignment.driverId a = Eligibility.driverId r
                \<and> Assignment.playerId a = Eligibility.playerId r)"
      using first by blast
  next
    fix did pid
    assume "\<forall>r \<in> set rules. \<not> (Eligibility.driverId r = did \<and> Eligibility.playerId r = pid)"
    then show "isAllowed rules did pid" "getPreference rules did pid = Pref_none"
      using no_rule_default by blast+
  qed
qed

theorem disallowed_pair_not_generated_witness:
  "exampleAssignment ''x'' ''d2'' ''p1''
     \<in> set (assignments (generateCarpool ''e'' (\<lambda>n. ''x'')
         [examplePlayer ''p1'' False, examplePlayer ''p2'' False]
         [exampleRule ''d'' ''p1'' False Pref_always]
         [exampleAttendance ''p1'', exampleAttendance ''p2'']
         [exampleAvailability ''d'' True (Some 2) (Some 0),
          exampleAvailability ''d2'' True (Some 1) (Some 0)] exampleWorld))
   \<and> isAllowed [exampleRule ''d'' ''p1'' False Pref_always] ''d2'' ''p1''
   \<and> getPreference [exampleRule ''d'' ''p1'' False Pref_always] ''d2'' ''p1'' = Pref_none
   \<and> exampleAssignment ''x'' ''d'' ''p1''
     \<notin> set (assignments (generateCarpool ''e'' (\<lambda>n. ''x'')
         [examplePlayer ''p1'' False, examplePlayer ''p2'' False]
         [exampleRule ''d'' ''p1'' False Pref_always]
         [exampleAttendance ''p1'', exampleAttendance ''p2'']
         [exampleAvailability ''d'' True (Some 2) (Some 0),
          exampleAvailability ''d2'' True (Some 1) (Some 0)] exampleWorld))
   \<and> map (\<lambda>a. (Assignment.playerId a, Assignment.driverId a))
       (assignments (generateCarpool ''e'' (\<lambda>n. ''x'')
         [examplePlayer ''p1'' False, examplePlayer ''p2'' False]
         [exampleRule ''d'' ''p1'' False Pref_always]
         [exampleAttendance ''p1'', exampleAttendance ''p2'']
         [exampleAvailability ''d'' True (Some 2) (Some 0),
          exampleAvailability ''d2'' True (Some 1) (Some 0)] exampleWorld))
     = [(''p1'', ''d2''), (''p2'', ''d'')]"
proof -
  let ?eds = "[exampleAvailability ''d'' True (Some 2) (Some 0),
          exampleAvailability ''d2'' True (Some 1) (Some 0)]"
  let ?rules = "[exampleRule ''d'' ''p1'' False Pref_always]"
  let ?out = "assignments (generateCarpool ''e'' (\<lambda>n. ''x'')
         [examplePlayer ''p1'' False, examplePlayer ''p2'' False] ?rules
         [exampleAttendance ''p1'', exampleAttendance ''p2''] ?eds exampleWorld)"
  have ne: "activeDrivers ?eds \<noteq> []"
    by (simp add: activeDrivers_def exampleAvailability_def)
  have mem: "exampleAssignment ''x'' ''d2'' ''p1'' \<in> set ?out"
    by code_simp
  have real: "Assignment.driverId (exampleAssignment ''x'' ''d2'' ''p1'') \<noteq> ''unassigned''"
    "Assignment.driverId (exampleAssignment ''x'' ''d'' ''p1'') \<noteq> ''unassigned''"
    by (simp_all add: exampleAssignment_def)
  have norule: "\<forall>r \<in> set ?rules. \<not> (Eligibility.driverId r = ''d2'' \<and> Eligibility.playerId r = ''p1'')"
    by (simp add: exampleRule_def)
  from disallowed_pair_not_generated[OF ne mem real(1)] norule
  have ok: "isAllowed ?rules ''d2'' ''p1''" "getPreference ?rules ''d2'' ''p1'' = Pref_none"
    by (simp_all add: exampleAssignment_def)
  have "exampleAssignment ''x'' ''d'' ''p1'' \<notin> set ?out"
  proof
    assume "exampleAssignment ''x'' ''d'' ''p1'' \<in> set ?out"
    from disallowed_pair_not_generated[OF ne this real(2)]
    have "isAllowed ?rules ''d'' ''p1''" by (simp add: exampleAssignment_def)
    then show False by (simp add: isAllowed_def exampleRule_def)
  qed
  moreover have "map (\<lambda>a. (Assignment.playerId a, Assignment.driverId a)) ?out
     = [(''p1'', ''d2''), (''p2'', ''d'')]"
    by code_simp
  ultimately show ?thesis using mem ok by simp
qed

text \<open>
  C7 as stated fails: with an allowing rule for \<open>(d, p1)\<close> followed by a forbidding
  rule for the same pair, a rule with \<open>allowed = false\<close> exists for the pair and the
  run still seats \<open>p1\<close> with \<open>d\<close>.
\<close>

theorem later_forbidding_rule_counterexample:
  "exampleRule ''d'' ''p1'' False Pref_none
     \<in> set [exampleRule ''d'' ''p1'' True Pref_none, exampleRule ''d'' ''p1'' False Pref_none]
   \<and> \<not> allowed (exampleRule ''d'' ''p1'' False Pref_none)
   \<and> Eligibility.driverId (exampleRule ''d'' ''p1'' False Pref_none) = ''d''
   \<and> Eligibility.playerId (exampleRule ''d'' ''p1'' False Pref_none) = ''p1''
   \<and> map Assignment.driverId (assignments (generateCarpool ''e'' (exampleIds ''x'')
        [examplePlayer ''p1'' False]
        [exampleRule ''d'' ''p1'' True Pref_none, exampleRule ''d'' ''p1'' False Pref_none]
        [exampleAttendance ''p1'']
        [exampleAvailability ''d'' True (Some 1) (Some 0)] exampleWorld))
     = [''d'']
   \<and> map Assignment.playerId (assignments (generateCarpool ''e'' (exampleIds ''x'')
        [examplePlayer ''p1'' False]
        [exampleRule ''d'' ''p1'' True Pref_none, exampleRule ''d'' ''p1'' False Pref_none]
        [exampleAttendance ''p1'']
        [exampleAvailability ''d'' True (Some 1) (Some 0)] exampleWorld))
     = [''p1'']"
  by code_simp


section \<open>Capacity\<close>

lemma capacityInv_init:
  assumes "wellFormedDrivers ds"
  shows "capacityInv ds [] (initialPass ds)"
  using assms
  by (auto simp: capacityInv_def initialPass_def bucketsOf_def wellFormedDrivers_def
      getDriverLoad_def childSeatLoad_def)

lemma getDriverLoad_snoc:
  "getDriverLoad (as @ [a]) did = getDriverLoad as did + (if Assignment.driverId a = did then 1 else 0)"
  by (simp add: getDriverLoad_def)

lemma childSeatLoad_snoc:
  "length ps = length as \<Longrightarrow>
   childSeatLoad (ps @ [p]) (as @ [a]) did =
     childSeatLoad ps as did + (if needsChildSeat p \<and> Assignment.driverId a = did then 1 else 0)"
  by (simp add: childSeatLoad_def)

lemma not_le_zero_Some: "\<not> le_zero (Some r) \<longleftrightarrow> 0 < r"
  by (auto simp: le_zero_def)

lemma capacityInv_step:
  assumes wf: "wellFormedDrivers ds" and inv: "capacityInv ds ps s"
  shows "capacityInv ds (ps @ [p]) (assignPlayer ev ids rules s p)"
proof (cases rule: assignPlayer_cases[of s rules p ev ids])
  case unassigned
  have ne: "\<forall>i < length ds. ''unassigned'' \<noteq> EventDriver.driverId (ds ! i)"
    using wf by (force simp: wellFormedDrivers_def in_set_conv_nth)
  have len: "length ps = length (newAssignments s)" using inv by (simp add: capacityInv_def)
  show ?thesis
    using inv ne unfolding unassigned(2) capacityInv_def
    by (simp add: getDriverLoad_snoc childSeatLoad_snoc[OF len] unassignedRow_def)
next
  case (assigned k)
  have len: "length ps = length (newAssignments s)" and lb: "length (buckets s) = length ds"
    using inv by (simp_all add: capacityInv_def)
  have k: "k < length ds" using assigned(1) lb by simp
  have dk: "EventDriver.driverId (buckets s ! k) = EventDriver.driverId (ds ! k)"
    using inv k by (simp add: capacityInv_def)
  have other: "\<forall>i < length ds. i \<noteq> k \<longrightarrow> EventDriver.driverId (ds ! k) \<noteq> EventDriver.driverId (ds ! i)"
    using wf k by (auto simp: wellFormedDrivers_def distinct_conv_nth)
  obtain r where r: "remainingSeats (buckets s ! k) = Some r" "0 \<le> r"
    using inv k unfolding capacityInv_def by blast
  obtain rc where rc: "remainingChildSeats (buckets s ! k) = Some rc" "0 \<le> rc"
    using inv k unfolding capacityInv_def by blast
  have rpos: "0 < r" using assigned(2) r by (simp add: feasible_def not_le_zero_Some)
  have rcpos: "needsChildSeat p \<longrightarrow> 0 < rc"
    using assigned(2) rc by (auto simp: feasible_def le_zero_def)
  show ?thesis
    unfolding assigned(4) capacityInv_def
  proof (intro conjI allI impI)
    show "length (buckets (s\<lparr>buckets := (buckets s)[k := commit p (buckets s ! k)],
             newAssignments := newAssignments s @ [assignedRow ev ids s p k],
             idsDrawn := Suc (idsDrawn s)\<rparr>)) = length ds" using lb by simp
    show "length (newAssignments (s\<lparr>buckets := (buckets s)[k := commit p (buckets s ! k)],
             newAssignments := newAssignments s @ [assignedRow ev ids s p k],
             idsDrawn := Suc (idsDrawn s)\<rparr>)) = length (ps @ [p])" using len by simp
  next
    fix i assume i: "i < length ds"
    show "EventDriver.driverId (buckets (s\<lparr>buckets := (buckets s)[k := commit p (buckets s ! k)],
             newAssignments := newAssignments s @ [assignedRow ev ids s p k],
             idsDrawn := Suc (idsDrawn s)\<rparr>) ! i) = EventDriver.driverId (ds ! i)"
      using inv i lb by (cases "i = k") (simp_all add: capacityInv_def)
  next
    fix i assume i: "i < length ds"
    obtain ri where ri: "remainingSeats (buckets s ! i) = Some ri" "0 \<le> ri"
      "availableSeatsTotal (ds ! i)
         = Some (ri + int (getDriverLoad (newAssignments s) (EventDriver.driverId (ds ! i))))"
      using inv i unfolding capacityInv_def by blast
    show "\<exists>r. remainingSeats (buckets (s\<lparr>buckets := (buckets s)[k := commit p (buckets s ! k)],
             newAssignments := newAssignments s @ [assignedRow ev ids s p k],
             idsDrawn := Suc (idsDrawn s)\<rparr>) ! i) = Some r \<and> 0 \<le> r
        \<and> availableSeatsTotal (ds ! i)
            = Some (r + int (getDriverLoad (newAssignments (s\<lparr>buckets := (buckets s)[k := commit p (buckets s ! k)],
             newAssignments := newAssignments s @ [assignedRow ev ids s p k],
             idsDrawn := Suc (idsDrawn s)\<rparr>)) (EventDriver.driverId (ds ! i))))"
    proof (cases "i = k")
      case True
      then show ?thesis using ri r rpos lb k dk
        by (simp add: getDriverLoad_snoc assignedRow_def decrement_def)
    next
      case False
      then show ?thesis using ri other i lb dk
        by (simp add: getDriverLoad_snoc assignedRow_def)
    qed
  next
    fix i assume i: "i < length ds"
    obtain ri where ri: "remainingChildSeats (buckets s ! i) = Some ri" "0 \<le> ri"
      "availableChildSeats (ds ! i)
         = Some (ri + int (childSeatLoad ps (newAssignments s) (EventDriver.driverId (ds ! i))))"
      using inv i unfolding capacityInv_def by blast
    show "\<exists>r. remainingChildSeats (buckets (s\<lparr>buckets := (buckets s)[k := commit p (buckets s ! k)],
             newAssignments := newAssignments s @ [assignedRow ev ids s p k],
             idsDrawn := Suc (idsDrawn s)\<rparr>) ! i) = Some r \<and> 0 \<le> r
        \<and> availableChildSeats (ds ! i)
            = Some (r + int (childSeatLoad (ps @ [p]) (newAssignments (s\<lparr>buckets := (buckets s)[k := commit p (buckets s ! k)],
             newAssignments := newAssignments s @ [assignedRow ev ids s p k],
             idsDrawn := Suc (idsDrawn s)\<rparr>)) (EventDriver.driverId (ds ! i))))"
    proof (cases "i = k")
      case True
      then show ?thesis using ri rc rcpos lb k dk
        by (simp add: childSeatLoad_snoc[OF len] assignedRow_def decrement_def)
    next
      case False
      then show ?thesis using ri other i lb dk
        by (simp add: childSeatLoad_snoc[OF len] assignedRow_def)
    qed
  qed
qed

lemma capacityInv_runPass:
  assumes "wellFormedDrivers ds"
  shows "capacityInv ds ps (runPass ev ids rules ds ps)"
proof (induction ps rule: rev_induct)
  case Nil
  show ?case using capacityInv_init[OF assms] by (simp add: runPass_Nil)
next
  case (snoc p ps)
  then show ?case using capacityInv_step[OF assms] by (simp add: runPass_snoc)
qed

text \<open>
  C1, as the code has it. Let the active availability records have pairwise different driver ids, none of
  them \<open>'unassigned'\<close>, and seat counts that are numbers and not negative. Then, in the
  rows the generator leaves for the event, every active driver is named by at most
  \<open>availableSeatsTotal\<close> rows, and by at most \<open>availableChildSeats\<close> rows of players
  that need a child seat; and after any number \<open>k\<close> of candidates, both counters of
  every bucket are numbers and not negative.
\<close>

theorem capacity_respected:
  assumes "distinct (map EventDriver.driverId (activeDrivers localEventDrivers))"
    and "''unassigned'' \<notin> set (map EventDriver.driverId (activeDrivers localEventDrivers))"
    and "\<forall>d \<in> set (activeDrivers localEventDrivers). \<exists>c \<ge> 0. availableSeatsTotal d = Some c"
    and "\<forall>d \<in> set (activeDrivers localEventDrivers). \<exists>c \<ge> 0. availableChildSeats d = Some c"
  shows "(\<forall>d \<in> set (activeDrivers localEventDrivers).
            (\<exists>c. availableSeatsTotal d = Some c
               \<and> int (getDriverLoad
                    (assignments (generateCarpool ev ids allPlayers rules localAttendance
                                    localEventDrivers w))
                    (EventDriver.driverId d)) \<le> c)
          \<and> (\<exists>c. availableChildSeats d = Some c
               \<and> int (childSeatLoad (sortedPlayers (goingPlayers allPlayers localAttendance))
                    (assignments (generateCarpool ev ids allPlayers rules localAttendance
                                    localEventDrivers w))
                    (EventDriver.driverId d)) \<le> c))
       \<and> (\<forall>k. \<forall>b \<in> set (buckets (runPass ev ids rules (activeDrivers localEventDrivers)
                           (take k (sortedPlayers (goingPlayers allPlayers localAttendance))))).
             (\<exists>r \<ge> 0. remainingSeats b = Some r) \<and> (\<exists>r \<ge> 0. remainingChildSeats b = Some r))"
proof -
  let ?ds = "activeDrivers localEventDrivers"
  let ?ps = "sortedPlayers (goingPlayers allPlayers localAttendance)"
  have wf: "wellFormedDrivers ?ds"
    using assms unfolding wellFormedDrivers_def by blast
  have inv: "capacityInv ?ds qs (runPass ev ids rules ?ds qs)" for qs
    by (rule capacityInv_runPass[OF wf])
  have loads: "(\<exists>c. availableSeatsTotal d = Some c
               \<and> int (getDriverLoad
                    (assignments (generateCarpool ev ids allPlayers rules localAttendance
                                    localEventDrivers w))
                    (EventDriver.driverId d)) \<le> c)
          \<and> (\<exists>c. availableChildSeats d = Some c
               \<and> int (childSeatLoad ?ps
                    (assignments (generateCarpool ev ids allPlayers rules localAttendance
                                    localEventDrivers w))
                    (EventDriver.driverId d)) \<le> c)"
    if d: "d \<in> set ?ds" for d
  proof -
    from d have ne: "?ds \<noteq> []" by auto
    from d obtain i where i: "i < length ?ds" "?ds ! i = d"
      by (auto simp: in_set_conv_nth)
    have out: "assignments (generateCarpool ev ids allPlayers rules localAttendance localEventDrivers w)
        = newAssignments (runPass ev ids rules ?ds ?ps)"
      by (simp add: generateCarpool_active[OF ne])
    obtain r where r: "0 \<le> r" "availableSeatsTotal (?ds ! i)
        = Some (r + int (getDriverLoad (newAssignments (runPass ev ids rules ?ds ?ps))
                           (EventDriver.driverId (?ds ! i))))"
      using inv[of ?ps] i(1) unfolding capacityInv_def by blast
    obtain rc where rc: "0 \<le> rc" "availableChildSeats (?ds ! i)
        = Some (rc + int (childSeatLoad ?ps (newAssignments (runPass ev ids rules ?ds ?ps))
                           (EventDriver.driverId (?ds ! i))))"
      using inv[of ?ps] i(1) unfolding capacityInv_def by blast
    show ?thesis using r rc i(2) by (simp add: out)
  qed
  have counters: "(\<exists>r \<ge> 0. remainingSeats b = Some r) \<and> (\<exists>r \<ge> 0. remainingChildSeats b = Some r)"
    if b: "b \<in> set (buckets (runPass ev ids rules ?ds (take k ?ps)))" for k b
  proof -
    let ?s = "runPass ev ids rules ?ds (take k ?ps)"
    have len: "length (buckets ?s) = length ?ds"
      using inv[of "take k ?ps"] by (simp add: capacityInv_def)
    from b obtain i where i: "i < length (buckets ?s)" "buckets ?s ! i = b"
      by (auto simp: in_set_conv_nth)
    then have "i < length ?ds" using len by simp
    then have "(\<exists>r. remainingSeats (buckets ?s ! i) = Some r \<and> 0 \<le> r)
        \<and> (\<exists>r. remainingChildSeats (buckets ?s ! i) = Some r \<and> 0 \<le> r)"
      using inv[of "take k ?ps"] unfolding capacityInv_def by blast
    then show ?thesis using i(2) by auto
  qed
  show ?thesis using loads counters by blast
qed

theorem capacity_respected_witness:
  "int (getDriverLoad
      (assignments (generateCarpool ''e'' (\<lambda>n. ''x'')
         [examplePlayer ''p2'' False, examplePlayer ''p1'' True, examplePlayer ''p3'' False] []
         [exampleAttendance ''p1'', exampleAttendance ''p2'', exampleAttendance ''p3'']
         [exampleAvailability ''d'' True (Some 2) (Some 1)] exampleWorld)) ''d'') \<le> 2
   \<and> int (childSeatLoad
      (sortedPlayers (goingPlayers
         [examplePlayer ''p2'' False, examplePlayer ''p1'' True, examplePlayer ''p3'' False]
         [exampleAttendance ''p1'', exampleAttendance ''p2'', exampleAttendance ''p3'']))
      (assignments (generateCarpool ''e'' (\<lambda>n. ''x'')
         [examplePlayer ''p2'' False, examplePlayer ''p1'' True, examplePlayer ''p3'' False] []
         [exampleAttendance ''p1'', exampleAttendance ''p2'', exampleAttendance ''p3'']
         [exampleAvailability ''d'' True (Some 2) (Some 1)] exampleWorld)) ''d'') \<le> 1
   \<and> map Assignment.driverId
      (assignments (generateCarpool ''e'' (\<lambda>n. ''x'')
         [examplePlayer ''p2'' False, examplePlayer ''p1'' True, examplePlayer ''p3'' False] []
         [exampleAttendance ''p1'', exampleAttendance ''p2'', exampleAttendance ''p3'']
         [exampleAvailability ''d'' True (Some 2) (Some 1)] exampleWorld))
      = [''d'', ''d'', ''unassigned'']"
proof -
  have "int (getDriverLoad
      (assignments (generateCarpool ''e'' (\<lambda>n. ''x'')
         [examplePlayer ''p2'' False, examplePlayer ''p1'' True, examplePlayer ''p3'' False] []
         [exampleAttendance ''p1'', exampleAttendance ''p2'', exampleAttendance ''p3'']
         [exampleAvailability ''d'' True (Some 2) (Some 1)] exampleWorld)) ''d'') \<le> 2
   \<and> int (childSeatLoad
      (sortedPlayers (goingPlayers
         [examplePlayer ''p2'' False, examplePlayer ''p1'' True, examplePlayer ''p3'' False]
         [exampleAttendance ''p1'', exampleAttendance ''p2'', exampleAttendance ''p3'']))
      (assignments (generateCarpool ''e'' (\<lambda>n. ''x'')
         [examplePlayer ''p2'' False, examplePlayer ''p1'' True, examplePlayer ''p3'' False] []
         [exampleAttendance ''p1'', exampleAttendance ''p2'', exampleAttendance ''p3'']
         [exampleAvailability ''d'' True (Some 2) (Some 1)] exampleWorld)) ''d'') \<le> 1"
    using capacity_respected
      [of "[exampleAvailability ''d'' True (Some 2) (Some 1)]" "''e''" "\<lambda>n. ''x''"
          "[examplePlayer ''p2'' False, examplePlayer ''p1'' True, examplePlayer ''p3'' False]"
          "[]" "[exampleAttendance ''p1'', exampleAttendance ''p2'', exampleAttendance ''p3'']"
          exampleWorld]
    by (simp add: activeDrivers_def exampleAvailability_def)
  moreover have "map Assignment.driverId
      (assignments (generateCarpool ''e'' (\<lambda>n. ''x'')
         [examplePlayer ''p2'' False, examplePlayer ''p1'' True, examplePlayer ''p3'' False] []
         [exampleAttendance ''p1'', exampleAttendance ''p2'', exampleAttendance ''p3'']
         [exampleAvailability ''d'' True (Some 2) (Some 1)] exampleWorld))
      = [''d'', ''d'', ''unassigned'']"
    by code_simp
  ultimately show ?thesis by simp
qed

text \<open>
  C1 as stated fails, once for each of the four conditions. A driver offering \<open>-1\<close>
  seats gets no row, which is more than \<open>-1\<close>, and the counter of the bucket is
  negative from the start. A driver whose record has no seat counts is given both
  candidates although the counters are not numbers. Two active records of one driver with
  one seat each give that driver two rows. And an active driver called \<open>'unassigned'\<close>
  with one seat is named by two rows, the second being the row of the player left over.
\<close>

theorem capacity_counterexample:
  "availableSeatsTotal (exampleAvailability ''d'' True (Some (- 1)) (Some 0)) = Some (- 1)
   \<and> \<not> int (getDriverLoad (assignments (generateCarpool ''e'' (exampleIds ''x'')
        [examplePlayer ''p1'' False] [] [exampleAttendance ''p1'']
        [exampleAvailability ''d'' True (Some (- 1)) (Some 0)] exampleWorld)) ''d'') \<le> - 1
   \<and> map remainingSeats (buckets (runPass ''e'' (exampleIds ''x'') []
        (activeDrivers [exampleAvailability ''d'' True (Some (- 1)) (Some 0)])
        (sortedPlayers (goingPlayers [examplePlayer ''p1'' False] [exampleAttendance ''p1'']))))
     = [Some (- 1)]
   \<and> availableSeatsTotal (exampleAvailability ''d'' True None None) = None
   \<and> getDriverLoad (assignments (generateCarpool ''e'' (exampleIds ''x'')
        [examplePlayer ''p1'' False, examplePlayer ''p2'' False] []
        [exampleAttendance ''p1'', exampleAttendance ''p2'']
        [exampleAvailability ''d'' True None None] exampleWorld)) ''d'' = 2
   \<and> \<not> int (getDriverLoad (assignments (generateCarpool ''e'' (exampleIds ''x'')
        [examplePlayer ''p1'' False, examplePlayer ''p2'' False] []
        [exampleAttendance ''p1'', exampleAttendance ''p2'']
        [exampleAvailability ''d'' True (Some 1) (Some 0),
         exampleAvailability ''d'' True (Some 1) (Some 0)] exampleWorld)) ''d'') \<le> 1
   \<and> \<not> int (getDriverLoad (assignments (generateCarpool ''e'' (exampleIds ''x'')
        [examplePlayer ''p1'' False, examplePlayer ''p2'' False] []
        [exampleAttendance ''p1'', exampleAttendance ''p2'']
        [exampleAvailability ''unassigned'' True (Some 1) (Some 0)] exampleWorld))
        ''unassigned'') \<le> 1"
  by code_simp


section \<open>Two runs on the same input\<close>

lemma sameUpToIds_step:
  assumes "sameUpToIds s t"
  shows "sameUpToIds (assignPlayer ev ids rules s p) (assignPlayer ev ids' rules t p)"
proof -
  have b: "buckets s = buckets t" using assms by (simp add: sameUpToIds_def)
  show ?thesis
    using assms b
    by (simp add: sameUpToIds_def assignPlayer_def Let_def forgetId_def)
qed

lemma sameUpToIds_runPass:
  "sameUpToIds (runPass ev ids rules ds ps) (runPass ev ids' rules ds ps)"
proof (induction ps rule: rev_induct)
  case Nil
  show ?case by (simp add: runPass_Nil sameUpToIds_def)
next
  case (snoc p ps)
  then show ?case using sameUpToIds_step by (simp add: runPass_snoc)
qed

text \<open>
  C2, as the code has it. Two runs on the same input, whatever ids \<open>generateId\<close>
  draws in each, leave the same database rows, the same loaded rows, the same alerts and
  the same tab, once the \<open>id\<close> field of every row is put aside.
\<close>

theorem generated_rows_equal_up_to_ids:
  "map forgetId (assignmentsDB (generateCarpool ev ids allPlayers rules localAttendance localEventDrivers w))
     = map forgetId (assignmentsDB (generateCarpool ev ids' allPlayers rules localAttendance localEventDrivers w))
   \<and> map forgetId (assignments (generateCarpool ev ids allPlayers rules localAttendance localEventDrivers w))
     = map forgetId (assignments (generateCarpool ev ids' allPlayers rules localAttendance localEventDrivers w))
   \<and> alerts (generateCarpool ev ids allPlayers rules localAttendance localEventDrivers w)
     = alerts (generateCarpool ev ids' allPlayers rules localAttendance localEventDrivers w)
   \<and> tab (generateCarpool ev ids allPlayers rules localAttendance localEventDrivers w)
     = tab (generateCarpool ev ids' allPlayers rules localAttendance localEventDrivers w)"
proof (cases "activeDrivers localEventDrivers = []")
  case True
  then show ?thesis by (simp add: generateCarpool_inactive)
next
  case False
  have "sameUpToIds
     (runPass ev ids rules (activeDrivers localEventDrivers)
        (sortedPlayers (goingPlayers allPlayers localAttendance)))
     (runPass ev ids' rules (activeDrivers localEventDrivers)
        (sortedPlayers (goingPlayers allPlayers localAttendance)))"
    by (rule sameUpToIds_runPass)
  then show ?thesis by (simp add: generateCarpool_active[OF False] sameUpToIds_def)
qed

theorem generated_rows_equal_up_to_ids_witness:
  "map forgetId (assignments (generateCarpool ''e'' (\<lambda>n. ''a'') [examplePlayer ''p1'' False] []
      [exampleAttendance ''p1''] [exampleAvailability ''d'' True (Some 1) (Some 0)] exampleWorld))
   = map forgetId (assignments (generateCarpool ''e'' (\<lambda>n. ''b'') [examplePlayer ''p1'' False] []
      [exampleAttendance ''p1''] [exampleAvailability ''d'' True (Some 1) (Some 0)] exampleWorld))"
  using generated_rows_equal_up_to_ids
    [of "''e''" "\<lambda>n. ''a''" "[examplePlayer ''p1'' False]" "[]" "[exampleAttendance ''p1'']"
        "[exampleAvailability ''d'' True (Some 1) (Some 0)]" exampleWorld "\<lambda>n. ''b''"]
  by simp

text \<open>
  C2 as stated fails: one candidate, one driver, and two runs in which \<open>generateId\<close>
  returns \<open>a\<close> and \<open>b\<close> give different rows.
\<close>

theorem random_ids_counterexample:
  "assignments (generateCarpool ''e'' (exampleIds ''a'') [examplePlayer ''p1'' False] []
      [exampleAttendance ''p1''] [exampleAvailability ''d'' True (Some 1) (Some 0)] exampleWorld)
   \<noteq> assignments (generateCarpool ''e'' (exampleIds ''b'') [examplePlayer ''p1'' False] []
      [exampleAttendance ''p1''] [exampleAvailability ''d'' True (Some 1) (Some 0)] exampleWorld)"
  by code_simp



section \<open>Where the seat counts of a bucket come from\<close>

lemma filter_find_None:
  "find P xs = None \<Longrightarrow> filter (\<lambda>x. \<not> P x) xs = xs"
  by (induction xs) (auto split: if_splits)

text \<open>
  C3, as the code has it. A bucket starts from the counts of its availability record,
  whatever they are, with no player assigned; the engine builds one bucket for each
  record that has \<open>isDriving\<close> set. The driver's global maximum enters earlier: when
  \<open>toggleDriver\<close> marks as driving a driver that has no record for the event yet, the
  record it creates carries \<open>maxSeatsTotal\<close> and \<open>maxChildSeats\<close> of the driver.
\<close>

theorem bucket_takes_record_counts:
  "remainingSeats (bucketOf d) = availableSeatsTotal d
   \<and> remainingChildSeats (bucketOf d) = availableChildSeats d
   \<and> assignedPlayerIds (bucketOf d) = []
   \<and> buckets (initialPass (activeDrivers localEventDrivers))
        = map bucketOf (filter isDriving localEventDrivers)
   \<and> (find (\<lambda>d. EventDriver.driverId d = did) localEventDrivers = None
        \<and> find (\<lambda>d. Driver.id' d = did) allDrivers = Some driverDef \<longrightarrow>
       toggleDriver ev allDrivers localEventDrivers did Field_isDriving
         = Inr (localEventDrivers @
                 [\<lparr>EventDriver.eventId = ev, driverId = did, isDriving = True,
                   direction = Dir_both,
                   availableSeatsTotal = Some (maxSeatsTotal driverDef),
                   availableChildSeats = Some (maxChildSeats driverDef),
                   notes' = ''''\<rparr>]))"
proof (intro conjI impI)
  assume h: "find (\<lambda>d. EventDriver.driverId d = did) localEventDrivers = None
        \<and> find (\<lambda>d. Driver.id' d = did) allDrivers = Some driverDef"
  then have "filter (\<lambda>d. EventDriver.driverId d \<noteq> did) localEventDrivers = localEventDrivers"
    using filter_find_None[of "\<lambda>d. EventDriver.driverId d = did" localEventDrivers] by simp
  then show "toggleDriver ev allDrivers localEventDrivers did Field_isDriving
         = Inr (localEventDrivers @
                 [\<lparr>EventDriver.eventId = ev, driverId = did, isDriving = True,
                   direction = Dir_both,
                   availableSeatsTotal = Some (maxSeatsTotal driverDef),
                   availableChildSeats = Some (maxChildSeats driverDef),
                   notes' = ''''\<rparr>])"
    using h by (simp add: toggleDriver_def Let_def)
qed (simp_all add: initialPass_def bucketsOf_def activeDrivers_def)

theorem bucket_takes_record_counts_witness:
  "toggleDriver ''e'' [exampleDriver ''d'' 4 1] [] ''d'' Field_isDriving
     = Inr [exampleAvailability ''d'' True (Some 4) (Some 1)]
   \<and> remainingSeats (bucketOf (exampleAvailability ''d'' True (Some 4) (Some 1))) = Some 4
   \<and> remainingSeats (bucketOf (exampleAvailability ''d'' True None None)) = None"
  using bucket_takes_record_counts
    [of "exampleAvailability ''d'' True (Some 4) (Some 1)" "[]" "''d''"
        "[exampleDriver ''d'' 4 1]" "exampleDriver ''d'' 4 1" "''e''"]
    bucket_takes_record_counts
    [of "exampleAvailability ''d'' True None None" "[]" "''d''"
        "[exampleDriver ''d'' 4 1]" "exampleDriver ''d'' 4 1" "''e''"]
  by (simp add: exampleDriver_def exampleAvailability_def)

text \<open>
  C3 as stated fails: for an active record without seat counts, of a driver whose global
  maximum is one seat and no child seat, the bucket's counters are not the driver's
  maximum, and the run seats two players, one of them needing a child seat, with that
  driver.
\<close>

theorem missing_counts_counterexample:
  "map remainingSeats (buckets (initialPass (activeDrivers
        [exampleAvailability ''d'' True None None])))
     \<noteq> [Some (maxSeatsTotal (exampleDriver ''d'' 1 0))]
   \<and> map remainingChildSeats (buckets (initialPass (activeDrivers
        [exampleAvailability ''d'' True None None])))
     \<noteq> [Some (maxChildSeats (exampleDriver ''d'' 1 0))]
   \<and> map Assignment.driverId (assignments (generateCarpool ''e'' (exampleIds ''x'')
        [examplePlayer ''p1'' True, examplePlayer ''p2'' False] []
        [exampleAttendance ''p1'', exampleAttendance ''p2'']
        [exampleAvailability ''d'' True None None] exampleWorld))
     = [''d'', ''d'']"
  by code_simp



section \<open>Manual override\<close>

lemma handleDrop_dragging:
  assumes "draggedPlayerId w = Some pid" and "pid \<noteq> []"
  shows "handleDrop ev ids target w =
     w\<lparr>assignmentsDB := filter (\<lambda>a. Assignment.eventId a \<noteq> ev) (assignmentsDB w)
          @ filter (\<lambda>a. Assignment.playerId a \<noteq> pid) (assignments w)
          @ [\<lparr>Assignment.id' = ids 0, eventId = ev, driverId = target,
               playerId = pid, direction = Dir_both\<rparr>],
       draggedPlayerId := None,
       assignments := filter (\<lambda>a. Assignment.eventId a = ev)
                        (filter (\<lambda>a. Assignment.playerId a \<noteq> pid) (assignments w))
          @ [\<lparr>Assignment.id' = ids 0, eventId = ev, driverId = target,
               playerId = pid, direction = Dir_both\<rparr>]\<rparr>"
  using assms by (simp add: handleDrop_def refreshData_def Let_def)

lemma handleDrop_idle:
  assumes "draggedPlayerId w = None \<or> draggedPlayerId w = Some []"
  shows "handleDrop ev ids target w = w"
  using assms by (auto simp: handleDrop_def)

text \<open>
  C8. While a player with a non-empty id is being dragged and the loaded rows are rows
  of the event, dropping on a target (a driver or \<open>'unassigned'\<close>) leaves exactly one
  loaded row for the player, with the target as driver and direction \<open>both\<close>; the loaded
  rows of all other players are the same as before, in the same order; the loaded rows
  are the event's rows of the database; the rows of other events in the database are
  untouched; and the target's load is one more than the load the other players give it,
  whatever that is: the handler takes neither seat counts nor eligibility rules.
\<close>

theorem override_changes_one_player:
  assumes "draggedPlayerId w = Some pid" and "pid \<noteq> []"
    and "\<forall>a \<in> set (assignments w). Assignment.eventId a = ev"
  shows "filter (\<lambda>a. Assignment.playerId a = pid) (assignments (handleDrop ev ids target w))
           = [\<lparr>Assignment.id' = ids 0, eventId = ev, driverId = target,
                playerId = pid, direction = Dir_both\<rparr>]
       \<and> filter (\<lambda>a. Assignment.playerId a \<noteq> pid) (assignments (handleDrop ev ids target w))
           = filter (\<lambda>a. Assignment.playerId a \<noteq> pid) (assignments w)
       \<and> assignments (handleDrop ev ids target w)
           = filter (\<lambda>a. Assignment.eventId a = ev) (assignmentsDB (handleDrop ev ids target w))
       \<and> filter (\<lambda>a. Assignment.eventId a \<noteq> ev) (assignmentsDB (handleDrop ev ids target w))
           = filter (\<lambda>a. Assignment.eventId a \<noteq> ev) (assignmentsDB w)
       \<and> getDriverLoad (assignments (handleDrop ev ids target w)) target
           = Suc (getDriverLoad (filter (\<lambda>a. Assignment.playerId a \<noteq> pid) (assignments w)) target)"
proof -
  let ?new = "\<lparr>Assignment.id' = ids 0, eventId = ev, driverId = target,
                playerId = pid, direction = Dir_both\<rparr>"
  let ?kept = "filter (\<lambda>a. Assignment.playerId a \<noteq> pid) (assignments w)"
  note all_ev = assms(3)
  have kept_ev: "filter (\<lambda>a. Assignment.eventId a = ev) ?kept = ?kept"
    using all_ev by (intro filter_True) simp
  have kept_other: "filter (\<lambda>a. Assignment.eventId a \<noteq> ev) ?kept = []"
    using all_ev by (intro filter_False) simp
  have view: "assignments (handleDrop ev ids target w) = ?kept @ [?new]"
    by (simp add: handleDrop_dragging[OF assms(1,2)] kept_ev del: filter_filter)
  have db: "assignmentsDB (handleDrop ev ids target w)
      = filter (\<lambda>a. Assignment.eventId a \<noteq> ev) (assignmentsDB w) @ ?kept @ [?new]"
    by (simp add: handleDrop_dragging[OF assms(1,2)])
  have 1: "filter (\<lambda>a. Assignment.playerId a = pid) (assignments (handleDrop ev ids target w)) = [?new]"
    by (simp add: view filter_empty_conv)
  have 2: "filter (\<lambda>a. Assignment.playerId a \<noteq> pid) (assignments (handleDrop ev ids target w)) = ?kept"
    by (simp add: view)
  have 3: "assignments (handleDrop ev ids target w)
      = filter (\<lambda>a. Assignment.eventId a = ev) (assignmentsDB (handleDrop ev ids target w))"
    by (simp add: view db kept_ev del: filter_filter)
  have 4: "filter (\<lambda>a. Assignment.eventId a \<noteq> ev) (assignmentsDB (handleDrop ev ids target w))
      = filter (\<lambda>a. Assignment.eventId a \<noteq> ev) (assignmentsDB w)"
    by (simp add: db kept_other del: filter_filter)
  have 5: "getDriverLoad (assignments (handleDrop ev ids target w)) target = Suc (getDriverLoad ?kept target)"
    by (simp add: view getDriverLoad_def)
  show ?thesis using 1 2 3 4 5 by simp
qed

theorem override_changes_one_player_witness:
  "assignments (handleDrop ''e'' (\<lambda>n. ''y'') ''d'' exampleBoard)
     = [exampleAssignment ''x1'' ''d'' ''p1'', exampleAssignment ''y'' ''d'' ''p2'']
   \<and> getDriverLoad (assignments (handleDrop ''e'' (\<lambda>n. ''y'') ''d'' exampleBoard)) ''d'' = 2"
proof -
  have h: "draggedPlayerId exampleBoard = Some ''p2''" "''p2'' \<noteq> []"
    "\<forall>a \<in> set (assignments exampleBoard). Assignment.eventId a = ''e''"
    by (simp_all add: exampleBoard_def exampleAssignment_def)
  from override_changes_one_player[OF h, of "\<lambda>n. ''y''" "''d''"]
  have "getDriverLoad (assignments (handleDrop ''e'' (\<lambda>n. ''y'') ''d'' exampleBoard)) ''d''
      = Suc (getDriverLoad (filter (\<lambda>a. Assignment.playerId a \<noteq> ''p2'') (assignments exampleBoard)) ''d'')"
    by blast
  then have "getDriverLoad (assignments (handleDrop ''e'' (\<lambda>n. ''y'') ''d'' exampleBoard)) ''d'' = 2"
    by (simp add: exampleBoard_def exampleAssignment_def getDriverLoad_def)
  moreover have "assignments (handleDrop ''e'' (\<lambda>n. ''y'') ''d'' exampleBoard)
     = [exampleAssignment ''x1'' ''d'' ''p1'', exampleAssignment ''y'' ''d'' ''p2'']"
    by code_simp
  ultimately show ?thesis by simp
qed



section \<open>One ride per player and event\<close>

lemma distinct_ids_sortedPlayers:
  assumes "distinct (map Player.id' allPlayers)"
  shows "distinct (map Player.id' (sortedPlayers (goingPlayers allPlayers att)))"
proof -
  let ?g = "goingPlayers allPlayers att"
  have g: "distinct (map Player.id' ?g)"
    using assms by (simp add: goingPlayers_def distinct_map_filter)
  then have inj: "inj_on Player.id' (set ?g)" by (simp add: distinct_map)
  have "Player.id' x \<noteq> Player.id' y"
    if "x \<in> set ?g" "needsChildSeat x" "y \<in> set ?g" "\<not> needsChildSeat y" for x y
    using that inj by (auto dest: inj_onD)
  then have "set (map Player.id' (filter needsChildSeat ?g))
      \<inter> set (map Player.id' (filter (\<lambda>p. \<not> needsChildSeat p) ?g)) = {}"
    by auto
  then show ?thesis
    using g by (simp add: sortedPlayers_def sortBy_compareChildSeat distinct_map_filter)
qed

lemma singleRide_runPass:
  assumes "distinct (map Player.id' ps)"
  shows "singleRide (newAssignments (runPass ev ids rules ds ps))"
proof -
  let ?out = "newAssignments (runPass ev ids rules ds ps)"
  have "map (\<lambda>a. (Assignment.eventId a, Assignment.playerId a)) ?out
      = map (\<lambda>a. (ev, Assignment.playerId a)) ?out"
    using runPass_eventId by (simp cong: map_cong)
  also have "\<dots> = map (Pair ev) (map Assignment.playerId ?out)" by simp
  also have "\<dots> = map (Pair ev) (map Player.id' ps)" by (simp add: runPass_rows)
  finally show ?thesis
    using assms by (simp add: singleRide_def distinct_map inj_on_def)
qed

lemma singleRide_append:
  assumes "singleRide xs" and "singleRide ys"
    and "\<forall>x \<in> set xs. Assignment.eventId x \<noteq> ev" and "\<forall>y \<in> set ys. Assignment.eventId y = ev"
  shows "singleRide (xs @ ys)"
  using assms by (auto simp: singleRide_def)

lemma singleRide_filter: "singleRide xs \<Longrightarrow> singleRide (filter P xs)"
  by (simp add: singleRide_def distinct_map_filter)

lemma singleRide_snoc:
  "singleRide xs \<Longrightarrow>
   \<forall>x \<in> set xs. \<not> (Assignment.eventId x = Assignment.eventId a \<and> Assignment.playerId x = Assignment.playerId a) \<Longrightarrow>
   singleRide (xs @ [a])"
  by (auto simp: singleRide_def)

text \<open>
  C9. With pairwise different player ids, the rows a run leaves for the event hold at
  most one row per player, and the database keeps the property if it had it. A drop
  keeps the property on the loaded rows; and on the database, when the loaded rows are
  the event's rows of the database.
\<close>

theorem single_ride_kept:
  "(distinct (map Player.id' allPlayers) \<and> activeDrivers localEventDrivers \<noteq> [] \<longrightarrow>
      singleRide (assignments
        (generateCarpool ev ids allPlayers rules localAttendance localEventDrivers w)))
   \<and> (distinct (map Player.id' allPlayers) \<and> singleRide (assignmentsDB w) \<longrightarrow>
      singleRide (assignmentsDB
        (generateCarpool ev ids allPlayers rules localAttendance localEventDrivers w)))
   \<and> (singleRide (assignments w) \<longrightarrow> singleRide (assignments (handleDrop ev ids target w)))
   \<and> (singleRide (assignmentsDB w)
        \<and> assignments w = filter (\<lambda>a. Assignment.eventId a = ev) (assignmentsDB w) \<longrightarrow>
      singleRide (assignmentsDB (handleDrop ev ids target w)))"
proof (intro conjI impI)
  let ?ps = "sortedPlayers (goingPlayers allPlayers localAttendance)"
  let ?out = "newAssignments (runPass ev ids rules (activeDrivers localEventDrivers) ?ps)"
  {
    assume h: "distinct (map Player.id' allPlayers) \<and> activeDrivers localEventDrivers \<noteq> []"
    then have "singleRide ?out"
      using singleRide_runPass[OF distinct_ids_sortedPlayers] by blast
    then show "singleRide (assignments
        (generateCarpool ev ids allPlayers rules localAttendance localEventDrivers w))"
      using h by (simp add: generateCarpool_active)
  next
    assume h: "distinct (map Player.id' allPlayers) \<and> singleRide (assignmentsDB w)"
    show "singleRide (assignmentsDB
        (generateCarpool ev ids allPlayers rules localAttendance localEventDrivers w))"
    proof (cases "activeDrivers localEventDrivers = []")
      case True
      then show ?thesis using h by (simp add: generateCarpool_inactive)
    next
      case False
      have "singleRide ?out"
        using h singleRide_runPass[OF distinct_ids_sortedPlayers] by blast
      then have "singleRide (filter (\<lambda>a. Assignment.eventId a \<noteq> ev) (assignmentsDB w) @ ?out)"
        using h runPass_eventId
        by (intro singleRide_append[where ev = ev] singleRide_filter) auto
      then show ?thesis by (simp add: generateCarpool_active[OF False])
    qed
  next
    assume h: "singleRide (assignments w)"
    show "singleRide (assignments (handleDrop ev ids target w))"
    proof (cases "draggedPlayerId w = None \<or> draggedPlayerId w = Some []")
      case True
      then show ?thesis using h by (simp add: handleDrop_idle)
    next
      case False
      then obtain pid where pid: "draggedPlayerId w = Some pid" "pid \<noteq> []" by auto
      have "singleRide (filter (\<lambda>a. Assignment.eventId a = ev)
                        (filter (\<lambda>a. Assignment.playerId a \<noteq> pid) (assignments w))
          @ [\<lparr>Assignment.id' = ids 0, eventId = ev, driverId = target,
               playerId = pid, direction = Dir_both\<rparr>])"
        using h by (intro singleRide_snoc singleRide_filter) auto
      then show ?thesis by (simp add: handleDrop_dragging[OF pid])
    qed
  next
    assume h: "singleRide (assignmentsDB w)
        \<and> assignments w = filter (\<lambda>a. Assignment.eventId a = ev) (assignmentsDB w)"
    show "singleRide (assignmentsDB (handleDrop ev ids target w))"
    proof (cases "draggedPlayerId w = None \<or> draggedPlayerId w = Some []")
      case True
      then show ?thesis using h by (simp add: handleDrop_idle)
    next
      case False
      then obtain pid where pid: "draggedPlayerId w = Some pid" "pid \<noteq> []" by auto
      let ?kept = "filter (\<lambda>a. Assignment.playerId a \<noteq> pid) (assignments w)"
      let ?others = "filter (\<lambda>a. Assignment.eventId a \<noteq> ev) (assignmentsDB w)"
      from h have sr: "singleRide (assignmentsDB w)"
        and sync: "assignments w = filter (\<lambda>a. Assignment.eventId a = ev) (assignmentsDB w)"
        by simp_all
      have sv: "singleRide (assignments w)"
        unfolding sync by (rule singleRide_filter[OF sr])
      have "\<forall>a \<in> set (filter (\<lambda>a. Assignment.eventId a = ev) (assignmentsDB w)).
              Assignment.eventId a = ev"
        by simp
      then have all_ev: "\<forall>a \<in> set (assignments w). Assignment.eventId a = ev"
        by (simp only: sync)
      have kept1: "singleRide ?kept" by (rule singleRide_filter[OF sv])
      have kept2: "\<forall>y \<in> set ?kept. Assignment.eventId y = ev" using all_ev by simp
      have others: "singleRide ?others" by (rule singleRide_filter[OF sr])
      have "singleRide (?others @ ?kept)"
        by (rule singleRide_append[where ev = ev, OF others kept1]) (use kept2 in simp_all)
      then have "singleRide ((?others @ ?kept)
          @ [\<lparr>Assignment.id' = ids 0, eventId = ev, driverId = target,
               playerId = pid, direction = Dir_both\<rparr>])"
        by (rule singleRide_snoc) auto
      then show ?thesis by (simp add: handleDrop_dragging[OF pid])
    qed
  }
qed

theorem single_ride_kept_witness:
  "singleRide (assignments (generateCarpool ''e'' (\<lambda>n. ''x'')
         [examplePlayer ''p1'' False, examplePlayer ''p2'' True] []
         [exampleAttendance ''p1'', exampleAttendance ''p2'']
         [exampleAvailability ''d'' True (Some 1) (Some 1)] exampleWorld))
   \<and> singleRide (assignmentsDB (generateCarpool ''e'' (\<lambda>n. ''x'')
         [examplePlayer ''p1'' False, examplePlayer ''p2'' True] []
         [exampleAttendance ''p1'', exampleAttendance ''p2'']
         [exampleAvailability ''d'' True (Some 1) (Some 1)] exampleBoard))
   \<and> singleRide (assignments (handleDrop ''e'' (\<lambda>n. ''y'') ''d'' exampleBoard))
   \<and> singleRide (assignmentsDB (handleDrop ''e'' (\<lambda>n. ''y'') ''d'' exampleBoard))"
proof -
  have ids: "distinct (map Player.id' [examplePlayer ''p1'' False, examplePlayer ''p2'' True])"
    by (simp add: examplePlayer_def)
  have ne: "activeDrivers [exampleAvailability ''d'' True (Some 1) (Some 1)] \<noteq> []"
    by (simp add: activeDrivers_def exampleAvailability_def)
  have db: "singleRide (assignmentsDB exampleBoard)" "singleRide (assignments exampleBoard)"
    by (simp_all add: singleRide_def exampleBoard_def exampleAssignment_def)
  have sync: "assignments exampleBoard
       = filter (\<lambda>a. Assignment.eventId a = ''e'') (assignmentsDB exampleBoard)"
    by (simp add: exampleBoard_def exampleAssignment_def)
  show ?thesis
    using ids ne db sync
      single_ride_kept[where allPlayers = "[examplePlayer ''p1'' False, examplePlayer ''p2'' True]"
        and localEventDrivers = "[exampleAvailability ''d'' True (Some 1) (Some 1)]"
        and ev = "''e''" and ids = "\<lambda>n. ''x''" and rules = "[]"
        and localAttendance = "[exampleAttendance ''p1'', exampleAttendance ''p2'']"
        and w = exampleWorld and target = "''d''"]
      single_ride_kept[where allPlayers = "[examplePlayer ''p1'' False, examplePlayer ''p2'' True]"
        and localEventDrivers = "[exampleAvailability ''d'' True (Some 1) (Some 1)]"
        and ev = "''e''" and ids = "\<lambda>n. ''x''" and rules = "[]"
        and localAttendance = "[exampleAttendance ''p1'', exampleAttendance ''p2'']"
        and w = exampleBoard and target = "''d''"]
      single_ride_kept[where allPlayers = "[examplePlayer ''p1'' False, examplePlayer ''p2'' True]"
        and localEventDrivers = "[exampleAvailability ''d'' True (Some 1) (Some 1)]"
        and ev = "''e''" and ids = "\<lambda>n. ''y''" and rules = "[]"
        and localAttendance = "[exampleAttendance ''p1'', exampleAttendance ''p2'']"
        and w = exampleBoard and target = "''d''"]
    by blast
qed



end
